theory Spec2Isabelle
  imports Main "HOL-Library.Sublist"
begin

section \<open>The request-queue overlay tree of node-smb-server\<close>

text \<open>
  A shallow embedding of \<^verbatim>\<open>lib/backends/rq/tree.js\<close> (the overlay tree \<^verbatim>\<open>RQTree\<close>) and
  of the part of \<^verbatim>\<open>lib/backends/fs/tree.js\<close> (\<^verbatim>\<open>FSTree\<close>) it runs on.

  Every function of the source takes a callback \<^verbatim>\<open>cb(err, result)\<close>. The model of such
  a function maps the state of the world to the way the callback is invoked, and to the
  new state: \<open>Ok v\<close> is \<^verbatim>\<open>cb(null, v)\<close>, \<open>Err e\<close> is \<^verbatim>\<open>cb(e)\<close>, and \<open>Throws\<close> is an exception
  that leaves the function before any callback is invoked. Names are strings holding the
  bytes of the UTF-8 form of the JavaScript string, so that \<^verbatim>\<open>===\<close> on names is equality.
  The queue's mapping of requests is a map; the two objects \<^verbatim>\<open>lookup\<close> and \<^verbatim>\<open>remoteLookup\<close> that
  \<^verbatim>\<open>list\<close> builds are objects with the properties every JavaScript object inherits. The
  debug lines written on entry of an operation are left out; the info and error lines are
  recorded.
\<close>

subsection \<open>Errors and results\<close>

datatype error = NotFound | AlreadyExists | NotEmpty | Conflict | Io | Remote nat | Queue

datatype 'a outcome = Ok 'a | Err error | Throws

subsection \<open>Files and queue entries\<close>

text \<open>A handle of the local, work or remote tree: what \<^verbatim>\<open>getName()\<close>, \<^verbatim>\<open>getPath()\<close> and
  \<^verbatim>\<open>isDirectory()\<close> answer.\<close>

record handle =
  getName :: string
  getPath :: string
  isDirectory :: bool

text \<open>The files handed to the client: a file of the remote tree as it is, or an overlay file,
  named after the factory of \<^verbatim>\<open>RQFile\<close> that made it.\<close>

datatype rqfile =
    DAMFile handle
  | RQInstance string
  | RQFromRemote string handle
  | RQFromLocal string handle
  | RQFromLocalAndRemote string handle handle

text \<open>The options object \<^verbatim>\<open>queueData\<close> hands to the queue; \<open>destPath\<close> is \<open>None\<close> when the
  property is not set.\<close>

record qentry =
  "method" :: string
  path :: string
  destPath :: "string option"
  remotePrefix :: string
  localPrefix :: string

subsection \<open>Paths\<close>

text \<open>Modelled from the spec: \<^verbatim>\<open>utils.getPathName\<close> is not part of the two source files. A
  logical name is a POSIX-style forward-slash path; its name is what follows the last slash.\<close>

definition getPathName :: "string \<Rightarrow> string" where
  "getPathName p = rev (takeWhile (\<lambda>c. c \<noteq> CHR ''/'') (rev p))"

text \<open>Modelled from the spec: \<^verbatim>\<open>utils.getParentPath\<close> is not part of the two source files.
  The parent of a logical name is what precedes the last slash, \<^verbatim>\<open>null\<close> (here \<open>None\<close>) when
  there is no slash.\<close>

definition getParentPath :: "string \<Rightarrow> string option" where
  "getParentPath p =
     (if CHR ''/'' \<in> set p
      then Some (rev (drop 1 (dropWhile (\<lambda>c. c \<noteq> CHR ''/'') (rev p))))
      else None)"

text \<open>Modelled from the spec: \<^verbatim>\<open>Path.join\<close> of a parent path and a name, in the logical
  names of the share: the two joined by a slash.\<close>

definition pathJoin :: "string \<Rightarrow> string \<Rightarrow> string" where
  "pathJoin d n = d @ ''/'' @ n"

text \<open>JavaScript's \<^verbatim>\<open>a || b\<close> on a string that may be \<^verbatim>\<open>null\<close>: the empty string is falsy.\<close>

definition orElse :: "string option \<Rightarrow> string \<Rightarrow> string" where
  "orElse a b = (case a of None \<Rightarrow> b | Some s \<Rightarrow> if s = [] then b else s)"

text \<open>The expression \<^verbatim>\<open>utils.getParentPath(pattern) || ''\<close> of \<^verbatim>\<open>list\<close>: the directory a
  name lies in.\<close>

definition dirOf :: "string \<Rightarrow> string" where
  "dirOf p = orElse (getParentPath p) []"

subsection \<open>The file system under a tree\<close>

text \<open>The raw file system is an external collaborator (the module \<^verbatim>\<open>fs\<close> of the platform).
  A file system maps the path of a directory to its entries, name and kind (\<open>True\<close> for a
  directory), in the order \<^verbatim>\<open>readdir\<close> lists them. The root is the empty path.\<close>

type_synonym fsys = "string \<Rightarrow> (string \<times> bool) list"

text \<open>Modelled from the spec: \<^verbatim>\<open>fs.stat\<close>, the kind of what is at a path, \<open>None\<close> for
  \<^verbatim>\<open>ENOENT\<close>. The root always exists.\<close>

definition fs_stat :: "fsys \<Rightarrow> string \<Rightarrow> bool option" where
  "fs_stat fs p = (if p = [] then Some True else map_of (fs (dirOf p)) (getPathName p))"

text \<open>Modelled from the spec: the file system without the entry at a path (what
  \<^verbatim>\<open>fs.unlink\<close> leaves).\<close>

definition fs_remove :: "fsys \<Rightarrow> string \<Rightarrow> fsys" where
  "fs_remove fs p = fs (dirOf p := filter (\<lambda>e. fst e \<noteq> getPathName p) (fs (dirOf p)))"

text \<open>Modelled from the spec: the file system with a new entry at a path, last in its
  directory.\<close>

definition fs_add :: "fsys \<Rightarrow> string \<Rightarrow> bool \<Rightarrow> fsys" where
  "fs_add fs p k = fs (dirOf p := fs (dirOf p) @ [(getPathName p, k)])"

text \<open>Modelled from the spec: the directories \<^verbatim>\<open>mkdirp\<close> visits, every prefix of the path
  that ends before a slash, then the path itself.\<close>

definition ancestors :: "string \<Rightarrow> string list" where
  "ancestors p =
     filter (\<lambda>d. d \<noteq> []) ([take i p. i \<leftarrow> [0..<length p], p ! i = CHR ''/''] @ [p])"

text \<open>Modelled from the spec: whether \<^verbatim>\<open>fs.stat\<close> of a path fails with \<^verbatim>\<open>ENOTDIR\<close>. The
  directories on the way to the path are visited from the root; the first that is missing ends
  the walk (\<^verbatim>\<open>ENOENT\<close>), the first that is a regular file makes it \<^verbatim>\<open>ENOTDIR\<close>.\<close>

fun notdirWalk :: "fsys \<Rightarrow> string list \<Rightarrow> bool" where
  "notdirWalk fs [] = False"
| "notdirWalk fs (d # ds) =
     (case fs_stat fs d of None \<Rightarrow> False | Some True \<Rightarrow> notdirWalk fs ds | Some False \<Rightarrow> True)"

definition fs_enotdir :: "fsys \<Rightarrow> string \<Rightarrow> bool" where
  "fs_enotdir fs p = notdirWalk fs (butlast (ancestors p))"

text \<open>Modelled from the spec: \<^verbatim>\<open>mkdirp\<close> creates the directories that are missing and fails
  (\<open>None\<close>) when one of them is a file.\<close>

definition fs_mkdirp :: "fsys \<Rightarrow> string \<Rightarrow> fsys option" where
  "fs_mkdirp fs p =
     fold (\<lambda>d r. case r of None \<Rightarrow> None
                 | Some f \<Rightarrow> (case fs_stat f d of None \<Rightarrow> Some (fs_add f d True)
                              | Some True \<Rightarrow> Some f
                              | Some False \<Rightarrow> None))
          (ancestors p) (Some fs)"

text \<open>Modelled from the spec: the entries below a directory that is renamed move with it.\<close>

definition move_subtree :: "string \<Rightarrow> string \<Rightarrow> fsys \<Rightarrow> fsys" where
  "move_subtree old new fs =
     (\<lambda>d. if d = new \<or> prefix (new @ ''/'') d then fs (old @ drop (length new) d)
          else if d = old \<or> prefix (old @ ''/'') d then []
          else fs d)"

text \<open>Modelled from the spec: \<^verbatim>\<open>fs.rename\<close> fails (\<open>None\<close>) when the old path does not
  exist or the directory of the new one does not; otherwise the entry, with what is below
  it, is found under the new path and no more under the old one.\<close>

definition fs_rename :: "fsys \<Rightarrow> string \<Rightarrow> string \<Rightarrow> fsys option" where
  "fs_rename fs old new =
     (case fs_stat fs old of
        None \<Rightarrow> None
      | Some k \<Rightarrow>
          (case fs_stat fs (dirOf new) of
             Some True \<Rightarrow>
               Some (fs_add (fs_remove (fs_remove (if k then move_subtree old new fs else fs) old) new) new k)
           | _ \<Rightarrow> None))"

subsection \<open>The world\<close>

datatype treeid = Local | Work | Remote

text \<open>Every call to a collaborator that has an effect or can fail, and every line written to
  the info or the error log.\<close>

datatype call =
    FsStat treeid string
  | FsReaddir treeid string
  | FsMkdirp treeid string
  | FsOpenWx treeid string
  | FsClose treeid string
  | FsUnlink treeid string
  | FsRename treeid string string
  | FSFileCreateInstance treeid string
  | FSFileDelete string
  | DamExists string
  | DamOpen string
  | DamList string
  | DamDelete string
  | DamRename string string
  | QueueRequest qentry
  | GetRequests string
  | UpdatePath string string
  | CreateInstance string
  | CreateInstanceFromLocal string
  | CreateInstanceFromLocalAndRemote string
  | CanDelete string
  | DeleteWorkFiles string
  | InvalidateContentCache "string option"
  | LogError string
  | LogInfo string string

text \<open>The state: the three trees, the queue, the object \<^verbatim>\<open>createdFiles\<close> (a map from the
  logical names given to \<^verbatim>\<open>createFile\<close>), and what has happened. The \<open>trace\<close> holds the calls and log lines in the order the operation makes
  them. The \<open>lateLog\<close> holds the lines logged by a callback that no operation waits for (the
  one \<^verbatim>\<open>queueData\<close> hands to the queue): the source does not fix when such a callback runs,
  so these lines have no place among the calls of the trace.\<close>

record world =
  localFs :: fsys
  workFs :: fsys
  remoteFs :: fsys
  queue :: "qentry list"
  createdFiles :: "string \<rightharpoonup> bool"
  trace :: "call list"
  lateLog :: "call list"

text \<open>What the tree is configured with and what its collaborators decide: the predicate for
  temporary file names (\<^verbatim>\<open>isTempFileName\<close>, inherited from the remote tree), the
  normalisation \<^verbatim>\<open>unorm.nfkd\<close>, the two prefixes of the share, the answer of
  \<^verbatim>\<open>RQFile.canDelete\<close> for a path, and the calls that fail, with their error.\<close>

record env =
  isTempFileName :: "string \<Rightarrow> bool"
  nfkd :: "string \<Rightarrow> string"
  remotePrefixOf :: string
  localPrefixOf :: string
  canDeleteOf :: "string \<Rightarrow> bool"
  faults :: "call \<Rightarrow> error option"

definition getFs :: "treeid \<Rightarrow> world \<Rightarrow> fsys" where
  "getFs t w = (case t of Local \<Rightarrow> localFs w | Work \<Rightarrow> workFs w | Remote \<Rightarrow> remoteFs w)"

definition setFs :: "treeid \<Rightarrow> fsys \<Rightarrow> world \<Rightarrow> world" where
  "setFs t fs w =
     (case t of Local \<Rightarrow> w\<lparr>localFs := fs\<rparr> | Work \<Rightarrow> w\<lparr>workFs := fs\<rparr> | Remote \<Rightarrow> w\<lparr>remoteFs := fs\<rparr>)"

definition traced :: "call \<Rightarrow> world \<Rightarrow> world" where
  "traced c w = w\<lparr>trace := trace w @ [c]\<rparr>"

text \<open>A call to a collaborator: it is recorded, and fails if the environment says so.\<close>

definition invoke :: "env \<Rightarrow> call \<Rightarrow> (world \<Rightarrow> 'a outcome \<times> world) \<Rightarrow> world \<Rightarrow> 'a outcome \<times> world" where
  "invoke env c body w =
     (case faults env c of Some e \<Rightarrow> (Err e, traced c w) | None \<Rightarrow> body (traced c w))"

text \<open>The callback \<^verbatim>\<open>function (err, v) { if (err) { cb(err); } else { ... } }\<close>.\<close>

definition andThen ::
  "(world \<Rightarrow> 'a outcome \<times> world) \<Rightarrow> ('a \<Rightarrow> world \<Rightarrow> 'b outcome \<times> world) \<Rightarrow> world \<Rightarrow> 'b outcome \<times> world" where
  "andThen m f w =
     (case m w of (Ok v, w') \<Rightarrow> f v w' | (Err e, w') \<Rightarrow> (Err e, w') | (Throws, w') \<Rightarrow> (Throws, w'))"

text \<open>\<^verbatim>\<open>async.map\<close>: the results in the order of the inputs, or the first error.\<close>

fun asyncMap :: "('a \<Rightarrow> world \<Rightarrow> 'b outcome \<times> world) \<Rightarrow> 'a list \<Rightarrow> world \<Rightarrow> 'b list outcome \<times> world" where
  "asyncMap f [] w = (Ok [], w)"
| "asyncMap f (x # xs) w =
     (case f x w of
        (Ok y, w') \<Rightarrow>
          (case asyncMap f xs w' of
             (Ok ys, w'') \<Rightarrow> (Ok (y # ys), w'')
           | (Err e, w'') \<Rightarrow> (Err e, w'')
           | (Throws, w'') \<Rightarrow> (Throws, w''))
      | (Err e, w') \<Rightarrow> (Err e, w')
      | (Throws, w') \<Rightarrow> (Throws, w'))"

subsection \<open>The local tree and the work tree: \<^verbatim>\<open>FSTree\<close>\<close>

text \<open>Modelled from the spec: \<^verbatim>\<open>FSFile.createInstance\<close> is not part of the two source files.
  It looks the path up and answers a handle, or \<open>NotFound\<close> when nothing is there.\<close>

definition createFileInstance :: "env \<Rightarrow> treeid \<Rightarrow> string \<Rightarrow> world \<Rightarrow> handle outcome \<times> world" where
  "createFileInstance env t name =
     invoke env (FSFileCreateInstance t name)
       (\<lambda>w. case fs_stat (getFs t w) name of
               None \<Rightarrow> (Err NotFound, w)
             | Some k \<Rightarrow> (Ok \<lparr>getName = getPathName name, getPath = name, isDirectory = k\<rparr>, w))"

text \<open>\<^verbatim>\<open>FSTree.prototype.exists\<close>: \<^verbatim>\<open>ENOENT\<close> is the answer false, any other error of
  \<^verbatim>\<open>fs.stat\<close> is passed on. \<^verbatim>\<open>ENOTDIR\<close>, the error for a path below a regular file, is an
  \<open>Io\<close> error; the other errors are faults of the environment.\<close>

definition FSTree_exists :: "env \<Rightarrow> treeid \<Rightarrow> string \<Rightarrow> world \<Rightarrow> bool outcome \<times> world" where
  "FSTree_exists env t name =
     invoke env (FsStat t name)
       (\<lambda>w. if fs_enotdir (getFs t w) name then (Err Io, w)
            else (Ok (fs_stat (getFs t w) name \<noteq> None), w))"

text \<open>\<^verbatim>\<open>FSTree.prototype.open\<close>.\<close>

definition FSTree_open :: "env \<Rightarrow> treeid \<Rightarrow> string \<Rightarrow> world \<Rightarrow> handle outcome \<times> world" where
  "FSTree_open env t name = createFileInstance env t name"

text \<open>\<^verbatim>\<open>unicodeEquals\<close>, the local function of \<^verbatim>\<open>FSTree.prototype.list\<close>.\<close>

definition unicodeEquals :: "env \<Rightarrow> string \<Rightarrow> string \<Rightarrow> bool" where
  "unicodeEquals env str1 str2 = (nfkd env str1 = nfkd env str2)"

text \<open>\<^verbatim>\<open>FSTree.prototype.list\<close>: the entries of the parent directory whose name is the
  pattern up to normalisation, all of them for the pattern \<^verbatim>\<open>*\<close>, each made a handle.\<close>

definition FSTree_list :: "env \<Rightarrow> treeid \<Rightarrow> string \<Rightarrow> world \<Rightarrow> handle list outcome \<times> world" where
  "FSTree_list env t pattern0 =
     (let parentPath = orElse (getParentPath pattern0) [];
          pattern = getPathName pattern0
      in andThen
           (invoke env (FsReaddir t parentPath)
              (\<lambda>w. case fs_stat (getFs t w) parentPath of
                      Some True \<Rightarrow> (Ok (map fst (getFs t w parentPath)), w)
                    | _ \<Rightarrow> (Err NotFound, w)))
           (\<lambda>files.
              let matchingNames =
                    (if pattern = ''*'' then files
                     else filter (\<lambda>fileName. unicodeEquals env fileName pattern) files)
              in asyncMap (\<lambda>name. createFileInstance env t (pathJoin parentPath name)) matchingNames))"

text \<open>\<^verbatim>\<open>FSTree.prototype.createFile\<close>: \<^verbatim>\<open>mkdirp\<close> of the parent, then \<^verbatim>\<open>fs.open\<close> with the
  flags \<^verbatim>\<open>wx\<close>, which fails when the file exists, then \<^verbatim>\<open>fs.close\<close>.\<close>

definition FSTree_createFile :: "env \<Rightarrow> treeid \<Rightarrow> string \<Rightarrow> world \<Rightarrow> handle outcome \<times> world" where
  "FSTree_createFile env t name =
     andThen
       (invoke env (FsMkdirp t (dirOf name))
          (\<lambda>w. case fs_mkdirp (getFs t w) (dirOf name) of
                  None \<Rightarrow> (Err Io, w)
                | Some fs \<Rightarrow> (Ok (), setFs t fs w)))
       (\<lambda>_. andThen
          (invoke env (FsOpenWx t name)
             (\<lambda>w. if fs_stat (getFs t w) name \<noteq> None then (Err AlreadyExists, w)
                  else (Ok (), setFs t (fs_add (getFs t w) name False) w)))
          (\<lambda>fd. andThen
             (invoke env (FsClose t name) (\<lambda>w. (Ok (), w)))
             (\<lambda>_. createFileInstance env t name)))"

text \<open>\<^verbatim>\<open>FSTree.prototype.delete\<close>: \<^verbatim>\<open>fs.unlink\<close>, which removes a file and no directory.\<close>

definition FSTree_delete :: "env \<Rightarrow> treeid \<Rightarrow> string \<Rightarrow> world \<Rightarrow> unit outcome \<times> world" where
  "FSTree_delete env t name =
     invoke env (FsUnlink t name)
       (\<lambda>w. case fs_stat (getFs t w) name of
               None \<Rightarrow> (Err NotFound, w)
             | Some True \<Rightarrow> (Err Io, w)
             | Some False \<Rightarrow> (Ok (), setFs t (fs_remove (getFs t w) name) w))"

text \<open>\<^verbatim>\<open>FSTree.prototype.rename\<close>: \<^verbatim>\<open>fs.rename\<close>.\<close>

definition FSTree_rename :: "env \<Rightarrow> treeid \<Rightarrow> string \<Rightarrow> string \<Rightarrow> world \<Rightarrow> unit outcome \<times> world" where
  "FSTree_rename env t oldName newName =
     invoke env (FsRename t oldName newName)
       (\<lambda>w. case fs_rename (getFs t w) oldName newName of
               None \<Rightarrow> (Err NotFound, w)
             | Some fs \<Rightarrow> (Ok (), setFs t fs w))"

subsection \<open>The remote tree: \<^verbatim>\<open>DAMTree\<close>\<close>

text \<open>\<^verbatim>\<open>DAMTree\<close> is not part of the two source files. The spec gives the remote tree the
  surface of the local tree; its content is a file system of its own, and every call to it
  is a remote call.\<close>

text \<open>Modelled from the spec: \<^verbatim>\<open>DAMTree.prototype.exists\<close>, whether the remote tree has
  the name.\<close>

definition DAMTree_exists :: "env \<Rightarrow> string \<Rightarrow> world \<Rightarrow> bool outcome \<times> world" where
  "DAMTree_exists env name =
     invoke env (DamExists name) (\<lambda>w. (Ok (fs_stat (remoteFs w) name \<noteq> None), w))"

text \<open>Modelled from the spec: \<^verbatim>\<open>DAMTree.prototype.open\<close>, the handle of a remote file, or
  \<open>NotFound\<close>.\<close>

definition DAMTree_open :: "env \<Rightarrow> string \<Rightarrow> world \<Rightarrow> handle outcome \<times> world" where
  "DAMTree_open env name =
     invoke env (DamOpen name)
       (\<lambda>w. case fs_stat (remoteFs w) name of
               None \<Rightarrow> (Err NotFound, w)
             | Some k \<Rightarrow> (Ok \<lparr>getName = getPathName name, getPath = name, isDirectory = k\<rparr>, w))"

text \<open>Modelled from the spec: \<^verbatim>\<open>DAMTree.prototype.list\<close>, the handles of the remote entries
  of the parent directory that match the pattern.\<close>

definition DAMTree_list :: "env \<Rightarrow> string \<Rightarrow> world \<Rightarrow> handle list outcome \<times> world" where
  "DAMTree_list env pattern0 =
     (let parentPath = orElse (getParentPath pattern0) [];
          pattern = getPathName pattern0
      in invoke env (DamList pattern0)
           (\<lambda>w. case fs_stat (remoteFs w) parentPath of
                   Some True \<Rightarrow>
                     (Ok (map (\<lambda>e. \<lparr>getName = getPathName (pathJoin parentPath (fst e)),
                                     getPath = pathJoin parentPath (fst e),
                                     isDirectory = snd e\<rparr>)
                            (filter (\<lambda>e. pattern = ''*'' \<or> fst e = pattern) (remoteFs w parentPath))), w)
                 | _ \<Rightarrow> (Err NotFound, w)))"

text \<open>Modelled from the spec: \<^verbatim>\<open>DAMTree.prototype.delete\<close>, which removes the name from the
  remote tree.\<close>

definition DAMTree_delete :: "env \<Rightarrow> string \<Rightarrow> world \<Rightarrow> unit outcome \<times> world" where
  "DAMTree_delete env name =
     invoke env (DamDelete name)
       (\<lambda>w. case fs_stat (remoteFs w) name of
               None \<Rightarrow> (Err NotFound, w)
             | Some k \<Rightarrow> (Ok (), w\<lparr>remoteFs := fs_remove (remoteFs w) name\<rparr>))"

text \<open>Modelled from the spec: \<^verbatim>\<open>DAMTree.prototype.rename\<close>, which renames on the remote
  tree.\<close>

definition DAMTree_rename :: "env \<Rightarrow> string \<Rightarrow> string \<Rightarrow> world \<Rightarrow> unit outcome \<times> world" where
  "DAMTree_rename env oldName newName =
     invoke env (DamRename oldName newName)
       (\<lambda>w. case fs_rename (remoteFs w) oldName newName of
               None \<Rightarrow> (Err NotFound, w)
             | Some fs \<Rightarrow> (Ok (), w\<lparr>remoteFs := fs\<rparr>))"

subsection \<open>The request queue\<close>

text \<open>\<^verbatim>\<open>RequestQueue\<close> is not part of the two source files. The spec makes the queue an
  ordered list of entries, each under the parent directory of its path.\<close>

text \<open>Modelled from the spec: \<^verbatim>\<open>queueRequest\<close> appends the entry.\<close>

definition RequestQueue_queueRequest :: "env \<Rightarrow> qentry \<Rightarrow> world \<Rightarrow> unit outcome \<times> world" where
  "RequestQueue_queueRequest env options =
     invoke env (QueueRequest options) (\<lambda>w. (Ok (), w\<lparr>queue := queue w @ [options]\<rparr>))"

text \<open>Modelled from the spec: the mapping from name to method of the entries queued under a
  directory, the latest entry of a name deciding.\<close>

definition requestsOf :: "qentry list \<Rightarrow> string \<Rightarrow> (string \<rightharpoonup> string)" where
  "requestsOf q parentPath =
     fold (\<lambda>e m. if dirOf (path e) = parentPath then m(getPathName (path e) \<mapsto> method e) else m)
          q Map.empty"

text \<open>Modelled from the spec: \<^verbatim>\<open>getRequests\<close> hands its callback an error and no mapping, or
  no error and the mapping; the pair is what the callback receives.\<close>

definition RequestQueue_getRequests ::
  "env \<Rightarrow> string \<Rightarrow> world \<Rightarrow> (error option \<times> (string \<rightharpoonup> string) option) \<times> world" where
  "RequestQueue_getRequests env parentPath w =
     (case faults env (GetRequests parentPath) of
        Some e \<Rightarrow> ((Some e, None), traced (GetRequests parentPath) w)
      | None \<Rightarrow> ((None, Some (requestsOf (queue w) parentPath)), traced (GetRequests parentPath) w))"

text \<open>Modelled from the spec: a path with the prefix \<open>old\<close> replaced by \<open>new\<close>.\<close>

definition rebase :: "string \<Rightarrow> string \<Rightarrow> string \<Rightarrow> string" where
  "rebase old new p = (if p = old \<or> prefix (old @ ''/'') p then new @ drop (length old) p else p)"

text \<open>Modelled from the spec: \<^verbatim>\<open>updatePath\<close> re-parents the entries queued under the old
  path.\<close>

definition RequestQueue_updatePath :: "env \<Rightarrow> string \<Rightarrow> string \<Rightarrow> world \<Rightarrow> unit outcome \<times> world" where
  "RequestQueue_updatePath env oldPath newPath =
     invoke env (UpdatePath oldPath newPath)
       (\<lambda>w. (Ok (), w\<lparr>queue := map (\<lambda>e. e\<lparr>path := rebase oldPath newPath (path e)\<rparr>) (queue w)\<rparr>))"

subsection \<open>Overlay files and the share\<close>

text \<open>\<^verbatim>\<open>RQFile\<close>, \<^verbatim>\<open>FSFile\<close> and the share are not part of the two source files.\<close>

text \<open>\<^verbatim>\<open>RQTree.prototype.getCreateFileName\<close>, the name of the creation marker of a file.\<close>

definition getCreateFileName :: "string \<Rightarrow> string" where
  "getCreateFileName name = name @ ''.rqcf''"

text \<open>Modelled from the spec: \<^verbatim>\<open>RQFile.createInstance\<close>, the overlay file of a name that
  only the remote tree has.\<close>

definition RQFile_createInstance :: "env \<Rightarrow> string \<Rightarrow> world \<Rightarrow> rqfile outcome \<times> world" where
  "RQFile_createInstance env name = invoke env (CreateInstance name) (\<lambda>w. (Ok (RQInstance name), w))"

text \<open>Modelled from the spec: \<^verbatim>\<open>RQFile.createInstanceFromRemote\<close>, which wraps a remote handle
  and has no callback.\<close>

definition RQFile_createInstanceFromRemote :: "string \<Rightarrow> handle \<Rightarrow> rqfile" where
  "RQFile_createInstanceFromRemote name remoteFile = RQFromRemote name remoteFile"

text \<open>Modelled from the spec: \<^verbatim>\<open>RQFile.createInstanceFromLocal\<close>, which wraps a local
  handle.\<close>

definition RQFile_createInstanceFromLocal :: "env \<Rightarrow> string \<Rightarrow> handle \<Rightarrow> world \<Rightarrow> rqfile outcome \<times> world" where
  "RQFile_createInstanceFromLocal env name localFile =
     invoke env (CreateInstanceFromLocal name) (\<lambda>w. (Ok (RQFromLocal name localFile), w))"

text \<open>Modelled from the spec: \<^verbatim>\<open>RQFile.createInstanceFromLocalAndRemote\<close>, which wraps a
  local and a remote handle. The remote handle is \<open>None\<close> when the caller passes
  \<^verbatim>\<open>undefined\<close>; the file is then backed by the local handle alone.\<close>

definition RQFile_createInstanceFromLocalAndRemote ::
  "env \<Rightarrow> string \<Rightarrow> handle \<Rightarrow> handle option \<Rightarrow> world \<Rightarrow> rqfile outcome \<times> world" where
  "RQFile_createInstanceFromLocalAndRemote env name localFile remoteFile =
     invoke env (CreateInstanceFromLocalAndRemote name)
       (\<lambda>w. (Ok (case remoteFile of
                    Some r \<Rightarrow> RQFromLocalAndRemote name localFile r
                  | None \<Rightarrow> RQFromLocal name localFile), w))"

text \<open>Modelled from the spec: \<^verbatim>\<open>getPath()\<close> of a file handed to the client, the name it was
  made with.\<close>

fun rqPath :: "rqfile \<Rightarrow> string" where
  "rqPath (DAMFile h) = getPath h"
| "rqPath (RQInstance name) = name"
| "rqPath (RQFromRemote name r) = name"
| "rqPath (RQFromLocal name l) = name"
| "rqPath (RQFromLocalAndRemote name l r) = name"

text \<open>Modelled from the spec: \<^verbatim>\<open>canDelete\<close> answers what the environment decides for the
  path of the file.\<close>

definition RQFile_canDelete :: "env \<Rightarrow> rqfile \<Rightarrow> world \<Rightarrow> bool outcome \<times> world" where
  "RQFile_canDelete env rqFile =
     invoke env (CanDelete (rqPath rqFile)) (\<lambda>w. (Ok (canDeleteOf env (rqPath rqFile)), w))"

text \<open>Modelled from the spec: \<^verbatim>\<open>RQFile.deleteWorkFiles\<close> removes the sidecars of a path, its
  entry and its creation marker, from the work tree.\<close>

definition RQFile_deleteWorkFiles :: "env \<Rightarrow> string \<Rightarrow> world \<Rightarrow> unit outcome \<times> world" where
  "RQFile_deleteWorkFiles env name =
     invoke env (DeleteWorkFiles name)
       (\<lambda>w. (Ok (), w\<lparr>workFs := fs_remove (fs_remove (workFs w) name) (getCreateFileName name)\<rparr>))"

text \<open>Modelled from the spec: \<^verbatim>\<open>delete\<close> on a local handle removes the file from the local
  tree.\<close>

definition FSFile_delete :: "env \<Rightarrow> handle \<Rightarrow> world \<Rightarrow> unit outcome \<times> world" where
  "FSFile_delete env localFile =
     invoke env (FSFileDelete (getPath localFile))
       (\<lambda>w. case fs_stat (localFs w) (getPath localFile) of
               None \<Rightarrow> (Err NotFound, w)
             | Some k \<Rightarrow> (Ok (), w\<lparr>localFs := fs_remove (localFs w) (getPath localFile)\<rparr>))"

text \<open>Modelled from the spec: \<^verbatim>\<open>invalidateContentCache\<close> of the share has no effect on the
  trees and the queue; the call is recorded.\<close>

definition invalidateContentCache :: "string option \<Rightarrow> world \<Rightarrow> world" where
  "invalidateContentCache p w = traced (InvalidateContentCache p) w"

subsection \<open>The overlay tree: \<^verbatim>\<open>RQTree\<close>\<close>

text \<open>\<^verbatim>\<open>RQTree.prototype.exists\<close>.\<close>

definition RQTree_exists :: "env \<Rightarrow> string \<Rightarrow> world \<Rightarrow> bool outcome \<times> world" where
  "RQTree_exists env name =
     andThen (FSTree_exists env Local name)
       (\<lambda>result. if result then (\<lambda>w. (Ok result, w)) else DAMTree_exists env name)"

text \<open>\<^verbatim>\<open>RQTree.prototype.open\<close>.\<close>

definition RQTree_open :: "env \<Rightarrow> string \<Rightarrow> world \<Rightarrow> rqfile outcome \<times> world" where
  "RQTree_open env name =
     andThen (DAMTree_exists env name)
       (\<lambda>remoteExists. andThen (FSTree_exists env Local name)
          (\<lambda>localExists.
             if remoteExists \<and> \<not> localExists then RQFile_createInstance env name
             else andThen (FSTree_open env Local name)
                    (\<lambda>localFile.
                       if \<not> remoteExists then RQFile_createInstanceFromLocal env name localFile
                       else andThen (DAMTree_open env name)
                              (\<lambda>remoteFile.
                                 RQFile_createInstanceFromLocalAndRemote env name localFile
                                   (Some remoteFile)))))"

text \<open>The objects \<^verbatim>\<open>lookup\<close> and \<^verbatim>\<open>remoteLookup\<close> of \<^verbatim>\<open>list\<close> are made by \<^verbatim>\<open>{}\<close> and hold an
  index under a name. Such an object inherits the properties of \<^verbatim>\<open>Object.prototype\<close>, whose
  names are these.\<close>

definition objectPrototypeKeys :: "string list" where
  "objectPrototypeKeys =
     [''constructor'', ''__defineGetter__'', ''__defineSetter__'', ''hasOwnProperty'',
      ''__lookupGetter__'', ''__lookupSetter__'', ''isPrototypeOf'', ''propertyIsEnumerable'',
      ''toString'', ''valueOf'', ''__proto__'', ''toLocaleString'']"

text \<open>What reading a property gives when it is not \<^verbatim>\<open>undefined\<close>: an index stored by the
  first loop, or an inherited value, a function or the prototype itself.\<close>

datatype jsvalue = Index nat | Inherited

text \<open>\<^verbatim>\<open>obj[name]\<close>: the property \<^verbatim>\<open>__proto__\<close> is the prototype whatever was stored; any
  other name gives what was stored under it, else what is inherited, else \<^verbatim>\<open>undefined\<close>
  (\<open>None\<close>).\<close>

definition getProperty :: "(string \<rightharpoonup> nat) \<Rightarrow> string \<Rightarrow> jsvalue option" where
  "getProperty obj name =
     (if name = ''__proto__'' then Some Inherited
      else (case obj name of
              Some i \<Rightarrow> Some (Index i)
            | None \<Rightarrow> if name \<in> set objectPrototypeKeys then Some Inherited else None))"

text \<open>\<^verbatim>\<open>obj[name] = i\<close> for a number \<^verbatim>\<open>i\<close>: assigning a number to \<^verbatim>\<open>__proto__\<close> has no effect;
  any other name gets the property, which hides an inherited one.\<close>

definition setProperty :: "(string \<rightharpoonup> nat) \<Rightarrow> string \<Rightarrow> nat \<Rightarrow> (string \<rightharpoonup> nat)" where
  "setProperty obj name i = (if name = ''__proto__'' then obj else obj(name \<mapsto> i))"

text \<open>\<^verbatim>\<open>remoteFiles[v]\<close> for what \<^verbatim>\<open>remoteLookup\<close> gave: \<^verbatim>\<open>undefined\<close> (\<open>None\<close>) when \<^verbatim>\<open>v\<close> is
  \<^verbatim>\<open>undefined\<close>, is no index, or is an index past the end.\<close>

definition elementAt :: "handle list \<Rightarrow> jsvalue option \<Rightarrow> handle option" where
  "elementAt xs v =
     (case v of Some (Index i) \<Rightarrow> if i < length xs then Some (xs ! i) else None | _ \<Rightarrow> None)"

text \<open>\<^verbatim>\<open>rqFiles[v] = rqFile\<close>: for an index, the element is replaced (the index is that of an
  element pushed by the first loop, lemma \<open>remotePass_keys\<close>); for a value that is no index,
  the array gets a property of that name and its elements stay as they are.\<close>

definition setElement :: "rqfile list \<Rightarrow> jsvalue \<Rightarrow> rqfile \<Rightarrow> rqfile list" where
  "setElement xs v x = (case v of Index i \<Rightarrow> xs[i := x] | Inherited \<Rightarrow> xs)"

text \<open>The first loop of \<^verbatim>\<open>list\<close>, over \<^verbatim>\<open>remoteFiles[i]\<close>. Indexing \<^verbatim>\<open>requests\<close> when the queue
  handed no mapping is a \<^verbatim>\<open>TypeError\<close>: the result is \<open>None\<close>. The test
  \<^verbatim>\<open>requests[name] != 'DELETE'\<close> holds for a name the mapping does not have, also when the
  mapping is an object and the name reads as an inherited value.\<close>

fun remotePass ::
  "(string \<rightharpoonup> string) option \<Rightarrow> handle list \<Rightarrow> nat \<Rightarrow>
   rqfile list \<times> (string \<rightharpoonup> nat) \<times> (string \<rightharpoonup> nat) \<Rightarrow>
   (rqfile list \<times> (string \<rightharpoonup> nat) \<times> (string \<rightharpoonup> nat)) option" where
  "remotePass requests [] i st = Some st"
| "remotePass requests (r # rs) i (rqFiles, lookup, remoteLookup) =
     (case requests of
        None \<Rightarrow> None
      | Some req \<Rightarrow>
          if req (getName r) \<noteq> Some ''DELETE''
          then remotePass requests rs (i + 1)
                 (rqFiles @ [RQFile_createInstanceFromRemote (getPath r) r],
                  setProperty lookup (getName r) (length rqFiles),
                  setProperty remoteLookup (getName r) i)
          else remotePass requests rs (i + 1) (rqFiles, lookup, remoteLookup))"

text \<open>\<^verbatim>\<open>processLocal(index)\<close>, on the local files from \<^verbatim>\<open>index\<close> on. The test
  \<^verbatim>\<open>remoteIndex !== undefined\<close> holds for an index and for an inherited value.\<close>

fun processLocal ::
  "env \<Rightarrow> handle list \<Rightarrow> (string \<rightharpoonup> nat) \<Rightarrow> (string \<rightharpoonup> nat) \<Rightarrow> handle list \<Rightarrow>
   rqfile list \<Rightarrow> world \<Rightarrow> rqfile list outcome \<times> world" where
  "processLocal env remoteFiles lookup remoteLookup [] rqFiles w = (Ok rqFiles, w)"
| "processLocal env remoteFiles lookup remoteLookup (l # ls) rqFiles w =
     (if isTempFileName env (getName l) then
        andThen (RQFile_createInstanceFromLocal env (getName l) l)
          (\<lambda>rqFile w'. processLocal env remoteFiles lookup remoteLookup ls (rqFiles @ [rqFile]) w') w
      else
        (case getProperty lookup (getName l) of
           Some remoteIndex \<Rightarrow>
             andThen
               (RQFile_createInstanceFromLocalAndRemote env (getPath l) l
                  (elementAt remoteFiles (getProperty remoteLookup (getName l))))
               (\<lambda>rqFile w'.
                  processLocal env remoteFiles lookup remoteLookup ls
                    (setElement rqFiles remoteIndex rqFile) w') w
         | None \<Rightarrow>
             andThen (RQFile_createInstanceFromLocal env (getPath l) l)
               (\<lambda>rqFile.
                  andThen (FSTree_exists env Work (getCreateFileName (getPath l)))
                    (\<lambda>exists.
                       if exists then
                         (\<lambda>w'. processLocal env remoteFiles lookup remoteLookup ls
                                 (rqFiles @ [rqFile]) w')
                       else
                         andThen (RQFile_canDelete env rqFile)
                           (\<lambda>canDelete.
                              if canDelete then
                                andThen (FSFile_delete env l)
                                  (\<lambda>_. andThen (RQFile_deleteWorkFiles env (getPath l))
                                     (\<lambda>_ w'.
                                        processLocal env remoteFiles lookup remoteLookup ls rqFiles
                                          (traced
                                             (LogInfo ''file %s was deleted remotely. exclude from file list''
                                                (rqPath rqFile)) w')))
                              else
                                (\<lambda>w'. processLocal env remoteFiles lookup remoteLookup ls
                                        (rqFiles @ [rqFile])
                                        (traced
                                           (LogInfo ''file %s is in conflict because it might need to be deleted. sending event''
                                              (rqPath rqFile)) w'))))) w))"

text \<open>The callback of \<^verbatim>\<open>getRequests\<close> in \<^verbatim>\<open>list\<close>: it never reads \<^verbatim>\<open>err\<close>.\<close>

definition list_merge ::
  "env \<Rightarrow> handle list \<Rightarrow> handle list \<Rightarrow> error option \<Rightarrow> (string \<rightharpoonup> string) option \<Rightarrow>
   world \<Rightarrow> rqfile list outcome \<times> world" where
  "list_merge env remoteFiles localFiles err requests w =
     (case remotePass requests remoteFiles 0 ([], Map.empty, Map.empty) of
        None \<Rightarrow> (Throws, w)
      | Some (rqFiles, lookup, remoteLookup) \<Rightarrow>
          processLocal env remoteFiles lookup remoteLookup localFiles rqFiles w)"

text \<open>\<^verbatim>\<open>RQTree.prototype.list\<close>. When the local tree has no parent directory the remote
  files are returned as they are.\<close>

definition RQTree_list :: "env \<Rightarrow> string \<Rightarrow> world \<Rightarrow> rqfile list outcome \<times> world" where
  "RQTree_list env pattern =
     andThen (DAMTree_list env pattern)
       (\<lambda>remoteFiles.
          let parentPath = orElse (getParentPath pattern) [] in
          andThen (FSTree_exists env Local parentPath)
            (\<lambda>exists.
               if exists then
                 andThen (FSTree_list env Local pattern)
                   (\<lambda>localFiles w.
                      case RequestQueue_getRequests env parentPath w of
                        ((err, requests), w') \<Rightarrow>
                          list_merge env remoteFiles localFiles err requests w')
               else (\<lambda>w. (Ok (map DAMFile remoteFiles), w))))"

text \<open>\<^verbatim>\<open>RQTree.prototype.queueData\<close>. It has no callback and waits for none: it returns the
  new state. The callback it hands to \<^verbatim>\<open>queueRequest\<close> logs the error of the queue, whenever
  the queue answers. \<^verbatim>\<open>if (newName)\<close> is false for a name that is not given and for the empty
  string.\<close>

definition queueData :: "env \<Rightarrow> string \<Rightarrow> string \<Rightarrow> string option \<Rightarrow> world \<Rightarrow> world" where
  "queueData env name meth newName w =
     (let isTempFile = isTempFileName env name;
          options = \<lparr>method = meth, path = name, destPath = None,
                     remotePrefix = remotePrefixOf env, localPrefix = localPrefixOf env\<rparr>;
          (options, isTempFile) =
             (case newName of
                None \<Rightarrow> (options, isTempFile)
              | Some n \<Rightarrow>
                  if n = [] then (options, isTempFile)
                  else (options\<lparr>destPath := Some n\<rparr>, isTempFile \<and> isTempFileName env n))
      in if \<not> isTempFile then
           (case RequestQueue_queueRequest env options w of
              (Err err, w') \<Rightarrow> w'\<lparr>lateLog := lateLog w' @ [LogError ''unable to queue request'']\<rparr>
            | (Ok u, w') \<Rightarrow> w'
            | (Throws, w') \<Rightarrow> w')
         else w)"

text \<open>\<^verbatim>\<open>RQTree.prototype.createFile\<close>.\<close>

definition RQTree_createFile :: "env \<Rightarrow> string \<Rightarrow> world \<Rightarrow> rqfile outcome \<times> world" where
  "RQTree_createFile env name =
     andThen (FSTree_createFile env Local name)
       (\<lambda>file. andThen (FSTree_createFile env Work (getCreateFileName name))
          (\<lambda>createdFile w.
             RQFile_createInstanceFromLocal env name file
               (invalidateContentCache (getParentPath name)
                  (w\<lparr>createdFiles := (createdFiles w)(name \<mapsto> True)\<rparr>))))"

text \<open>\<^verbatim>\<open>RQTree.prototype.delete\<close>. Its line on entry goes to the info log. The callback of
  \<^verbatim>\<open>deleteWorkFiles\<close> logs an error and calls \<^verbatim>\<open>cb(null)\<close> either way.\<close>

definition RQTree_delete :: "env \<Rightarrow> string \<Rightarrow> world \<Rightarrow> unit outcome \<times> world" where
  "RQTree_delete env name w0 =
     andThen (FSTree_exists env Local name)
       (\<lambda>exists.
          if exists then
            andThen (FSTree_delete env Local name)
              (\<lambda>_ w.
                 case RQFile_deleteWorkFiles env name
                        (queueData env name ''DELETE'' None
                           (invalidateContentCache (getParentPath name) w)) of
                   (Err err, w') \<Rightarrow>
                     (Ok (),
                      traced (LogError ''unexpected error while trying to clean up rq file after deletion'') w')
                 | (Ok u, w') \<Rightarrow> (Ok (), w')
                 | (Throws, w') \<Rightarrow> (Throws, w'))
          else DAMTree_delete env name)
       (traced (LogInfo ''[%s] tree.delete %s'' name) w0)"

text \<open>The two local functions of \<^verbatim>\<open>rename\<close>, \<^verbatim>\<open>queueRename\<close> and \<^verbatim>\<open>renameCreated\<close>, with the
  variables they close over as arguments.\<close>

definition queueRename :: "env \<Rightarrow> handle \<Rightarrow> string \<Rightarrow> string \<Rightarrow> world \<Rightarrow> unit outcome \<times> world" where
  "queueRename env file oldName newName =
     (if isDirectory file then
        andThen (DAMTree_rename env oldName newName)
          (\<lambda>_. andThen (RequestQueue_updatePath env oldName newName) (\<lambda>_ w. (Ok (), w)))
      else (\<lambda>w. (Ok (), queueData env oldName ''MOVE'' (Some newName) w)))"

definition renameCreated ::
  "env \<Rightarrow> handle \<Rightarrow> bool \<Rightarrow> string \<Rightarrow> string \<Rightarrow> world \<Rightarrow> unit outcome \<times> world" where
  "renameCreated env file exists oldName newName =
     (if exists then
        andThen (FSTree_rename env Work oldName newName)
          (\<lambda>_. queueRename env file oldName newName)
      else queueRename env file oldName newName)"

text \<open>\<^verbatim>\<open>RQTree.prototype.rename\<close>.\<close>

definition RQTree_rename :: "env \<Rightarrow> string \<Rightarrow> string \<Rightarrow> world \<Rightarrow> unit outcome \<times> world" where
  "RQTree_rename env oldName newName =
     andThen (FSTree_exists env Local oldName)
       (\<lambda>exists.
          if exists then
            andThen (FSTree_rename env Local oldName newName)
              (\<lambda>_ w.
                 andThen (createFileInstance env Local newName)
                   (\<lambda>file. andThen (FSTree_exists env Work oldName)
                      (\<lambda>exists. andThen (FSTree_exists env Work (getCreateFileName oldName))
                         (\<lambda>createdExists.
                            if createdExists then
                              andThen
                                (FSTree_rename env Work (getCreateFileName oldName)
                                   (getCreateFileName newName))
                                (\<lambda>_. renameCreated env file exists oldName newName)
                            else renameCreated env file exists oldName newName)))
                   (invalidateContentCache (getParentPath newName)
                      (invalidateContentCache (getParentPath oldName) w)))
          else DAMTree_rename env oldName newName)"

subsection \<open>Notions used to state the properties\<close>

text \<open>The remote entries that survive the first loop of \<^verbatim>\<open>list\<close>: those whose name has no
  pending \<^verbatim>\<open>DELETE\<close> in the mapping the queue handed over.\<close>

definition survivingRemote :: "(string \<rightharpoonup> string) \<Rightarrow> handle list \<Rightarrow> handle list" where
  "survivingRemote req remoteFiles = filter (\<lambda>r. req (getName r) \<noteq> Some ''DELETE'') remoteFiles"

text \<open>The overlay file \<^verbatim>\<open>list\<close> makes of a local file that it appends: a temporary file is
  made from its name, any other from its path.\<close>

definition localOnly :: "env \<Rightarrow> handle \<Rightarrow> rqfile" where
  "localOnly env l = RQFromLocal (if isTempFileName env (getName l) then getName l else getPath l) l"

text \<open>Two paths are the same place of a file system when they name the same entry of the same
  directory.\<close>

definition samePlace :: "string \<Rightarrow> string \<Rightarrow> bool" where
  "samePlace p q \<longleftrightarrow> dirOf p = dirOf q \<and> getPathName p = getPathName q"

text \<open>The local files the spec has \<^verbatim>\<open>list\<close> append after the surviving remote entries \<open>S\<close>, for
  a work tree \<open>W\<close>: the temporary files, and the files whose name no surviving remote entry
  has and that are created by a client (the creation marker is in \<open>W\<close>) or are orphans that
  cannot be deleted.\<close>

definition appendedLocal :: "env \<Rightarrow> handle list \<Rightarrow> fsys \<Rightarrow> handle \<Rightarrow> bool" where
  "appendedLocal env S W l \<longleftrightarrow>
     isTempFileName env (getName l) \<or>
     getName l \<notin> getName ` set S \<and>
     (fs_stat W (getCreateFileName (getPath l)) \<noteq> None \<or> \<not> canDeleteOf env (getPath l))"

text \<open>A local listing is regular when none of its files that are not temporary has a name
  that every JavaScript object inherits as a property, or a creation marker at the place of a
  listed file.\<close>

definition regularListing :: "env \<Rightarrow> handle list \<Rightarrow> bool" where
  "regularListing env ls \<longleftrightarrow>
     (\<forall>l\<in>set ls. \<not> isTempFileName env (getName l) \<longrightarrow>
        getName l \<notin> set objectPrototypeKeys \<and>
        (\<forall>x\<in>set ls. \<not> samePlace (getCreateFileName (getPath l)) (getPath x)))"

text \<open>What the two lookups of \<^verbatim>\<open>list\<close> hold after the first loop has seen the remote files
  \<open>ps\<close>, of which \<open>S\<close> survive. A name that reads as \<^verbatim>\<open>undefined\<close> is the name of no
  surviving entry. A name that reads as an index is the name of the surviving entry at that
  index, and \<^verbatim>\<open>remoteLookup\<close> leads to the same remote file. A name that reads as an inherited
  value is \<^verbatim>\<open>__proto__\<close> or the name of no surviving entry.\<close>

definition lookupInv ::
  "handle list \<Rightarrow> handle list \<Rightarrow> (string \<rightharpoonup> nat) \<Rightarrow> (string \<rightharpoonup> nat) \<Rightarrow> bool" where
  "lookupInv S ps lk rl \<longleftrightarrow>
     (\<forall>name. getProperty lk name = None \<longrightarrow> name \<notin> getName ` set S) \<and>
     (\<forall>name ri. getProperty lk name = Some (Index ri) \<longrightarrow>
        ri < length S \<and> getName (S ! ri) = name \<and>
        elementAt ps (getProperty rl name) = Some (S ! ri)) \<and>
     (\<forall>name. getProperty lk name = Some Inherited \<longrightarrow>
        name = ''__proto__'' \<or> name \<notin> getName ` set S)"

text \<open>The calls that go to the remote tree.\<close>

fun isRemoteCall :: "call \<Rightarrow> bool" where
  "isRemoteCall (DamExists n) = True"
| "isRemoteCall (DamOpen n) = True"
| "isRemoteCall (DamList n) = True"
| "isRemoteCall (DamDelete n) = True"
| "isRemoteCall (DamRename a b) = True"
| "isRemoteCall c = False"

text \<open>The options object \<^verbatim>\<open>queueData\<close> builds from its arguments, and the condition under
  which it does not call the queue: the name is temporary and so is the new name, if one is
  given.\<close>

definition queueEntry :: "env \<Rightarrow> string \<Rightarrow> string \<Rightarrow> string option \<Rightarrow> qentry" where
  "queueEntry env meth name newName =
     \<lparr>method = meth, path = name,
      destPath = (case newName of None \<Rightarrow> None | Some n \<Rightarrow> if n = [] then None else Some n),
      remotePrefix = remotePrefixOf env, localPrefix = localPrefixOf env\<rparr>"

definition queueSkipped :: "env \<Rightarrow> string \<Rightarrow> string option \<Rightarrow> bool" where
  "queueSkipped env name newName \<longleftrightarrow>
     isTempFileName env name \<and>
     (case newName of None \<Rightarrow> True | Some n \<Rightarrow> n = [] \<or> isTempFileName env n)"

text \<open>The entries \<^verbatim>\<open>queueData\<close> builds for \<^verbatim>\<open>delete\<close> and for \<^verbatim>\<open>rename\<close>.\<close>

definition deleteEntry :: "env \<Rightarrow> string \<Rightarrow> qentry" where
  "deleteEntry env name =
     \<lparr>method = ''DELETE'', path = name, destPath = None,
      remotePrefix = remotePrefixOf env, localPrefix = localPrefixOf env\<rparr>"

definition moveEntry :: "env \<Rightarrow> string \<Rightarrow> string \<Rightarrow> qentry" where
  "moveEntry env oldName newName =
     \<lparr>method = ''MOVE'', path = oldName, destPath = Some newName,
      remotePrefix = remotePrefixOf env, localPrefix = localPrefixOf env\<rparr>"

subsection \<open>A sample share\<close>

text \<open>A share whose temporary files are those whose name starts with a tilde, with one
  directory \<^verbatim>\<open>/a\<close> in each of its trees. Its normalisation is the part of NFKD the comment in
  \<^verbatim>\<open>FSTree.list\<close> speaks of: the precomposed e-acute (bytes C3 A9) becomes the letter e
  followed by the combining acute accent (bytes CC 81).\<close>

fun nfkdSample :: "string \<Rightarrow> string" where
  "nfkdSample (c1 # c2 # cs) =
     (if c1 = CHR 0xC3 \<and> c2 = CHR 0xA9 then CHR ''e'' # CHR 0xCC # CHR 0x81 # nfkdSample cs
      else c1 # nfkdSample (c2 # cs))"
| "nfkdSample cs = cs"

definition sampleEnv :: env where
  "sampleEnv =
     \<lparr>isTempFileName = (\<lambda>n. take 1 (getPathName n) = ''~''),
      nfkd = nfkdSample,
      remotePrefixOf = ''http://dam/api/assets'',
      localPrefixOf = ''/var/rq/local'',
      canDeleteOf = (\<lambda>p. True),
      faults = (\<lambda>c. None)\<rparr>"

definition oneDir :: "string list \<Rightarrow> fsys" where
  "oneDir names =
     (\<lambda>d. if d = [] then [(''a'', True)]
          else if d = ''/a'' then map (\<lambda>n. (n, False)) names
          else [])"

definition sampleWorld :: "string list \<Rightarrow> string list \<Rightarrow> string list \<Rightarrow> world" where
  "sampleWorld localNames workNames remoteNames =
     \<lparr>localFs = oneDir localNames, workFs = oneDir workNames, remoteFs = oneDir remoteNames,
      queue = [], createdFiles = Map.empty, trace = [], lateLog = []\<rparr>"

text \<open>A tree that has lost all its entries, its directories too.\<close>

definition noEntries :: fsys where
  "noEntries = (\<lambda>d. [])"

text \<open>The same share with a queue that fails every request to enqueue, with a queue that fails
  to report its requests, and with files that cannot be deleted.\<close>

definition queueDownEnv :: env where
  "queueDownEnv =
     sampleEnv\<lparr>faults := (\<lambda>c. case c of QueueRequest e \<Rightarrow> Some Queue | _ \<Rightarrow> None)\<rparr>"

definition getRequestsDownEnv :: env where
  "getRequestsDownEnv =
     sampleEnv\<lparr>faults := (\<lambda>c. case c of GetRequests d \<Rightarrow> Some Queue | _ \<Rightarrow> None)\<rparr>"

definition busyEnv :: env where
  "busyEnv = sampleEnv\<lparr>canDeleteOf := (\<lambda>p. False)\<rparr>"

text \<open>The handle of the file of a name in \<^verbatim>\<open>/a\<close>.\<close>

definition fileHandle :: "string \<Rightarrow> handle" where
  "fileHandle n = \<lparr>getName = n, getPath = ''/a/'' @ n, isDirectory = False\<rparr>"

text \<open>One file name in its composed and in its decomposed form.\<close>

definition cafeNFC :: string where
  "cafeNFC = ''caf'' @ [CHR 0xC3, CHR 0xA9] @ ''.txt''"

definition cafeNFD :: string where
  "cafeNFD = ''cafe'' @ [CHR 0xCC, CHR 0x81] @ ''.txt''"

section \<open>Properties\<close>

subsection \<open>Callbacks, calls and fields\<close>

lemmas path_defs = getPathName_def getParentPath_def pathJoin_def orElse_def dirOf_def
lemmas fs_defs = fs_stat_def fs_remove_def fs_add_def fs_rename_def fs_mkdirp_def ancestors_def
  fs_enotdir_def
lemmas world_defs = getFs_def setFs_def traced_def invoke_def andThen_def
lemmas tree_defs = createFileInstance_def FSTree_exists_def FSTree_open_def FSTree_list_def
  FSTree_createFile_def FSTree_delete_def FSTree_rename_def
  DAMTree_exists_def DAMTree_open_def DAMTree_list_def DAMTree_delete_def DAMTree_rename_def
  RequestQueue_queueRequest_def RequestQueue_getRequests_def requestsOf_def
  RequestQueue_updatePath_def
  RQFile_createInstance_def RQFile_createInstanceFromRemote_def RQFile_createInstanceFromLocal_def
  RQFile_createInstanceFromLocalAndRemote_def RQFile_canDelete_def RQFile_deleteWorkFiles_def
  FSFile_delete_def invalidateContentCache_def getCreateFileName_def unicodeEquals_def
  objectPrototypeKeys_def getProperty_def setProperty_def elementAt_def setElement_def
lemmas sample_defs = sampleEnv_def queueDownEnv_def getRequestsDownEnv_def busyEnv_def
  noEntries_def
  sampleWorld_def oneDir_def cafeNFC_def cafeNFD_def fileHandle_def
lemmas eval_defs = RQTree_list_def RQTree_open_def RQTree_delete_def RQTree_rename_def
  RQTree_createFile_def queueRename_def renameCreated_def queueData_def list_merge_def
  sample_defs path_defs fs_defs world_defs tree_defs Let_def

lemma andThen_Ok:
  "andThen m f w = (Ok v, w') \<longleftrightarrow> (\<exists>u w1. m w = (Ok u, w1) \<and> f u w1 = (Ok v, w'))"
  by (auto simp: andThen_def split: prod.splits outcome.splits)

lemma andThen_OkE:
  assumes "andThen m f w = (Ok v, w')"
  obtains u w1 where "m w = (Ok u, w1)" "f u w1 = (Ok v, w')"
  using assms by (auto simp: andThen_def split: prod.splits outcome.splits)

lemma fst_andThen_cong:
  assumes "\<And>v w1. fst (f v w1) = fst (g v w1)"
  shows "fst (andThen m f w) = fst (andThen m g w)"
  using assms by (simp add: andThen_def split: prod.splits outcome.splits)

lemma invoke_Ok:
  "invoke env c body w = (Ok v, w') \<longleftrightarrow> faults env c = None \<and> body (traced c w) = (Ok v, w')"
  by (auto simp: invoke_def split: option.splits)

lemma invoke_same:
  assumes "faults env' c = faults env c"
  shows "invoke env' c body = invoke env c body"
  using assms by (simp add: invoke_def fun_eq_iff)

lemma traced_fields [simp]:
  "localFs (traced c w) = localFs w" "workFs (traced c w) = workFs w"
  "remoteFs (traced c w) = remoteFs w" "queue (traced c w) = queue w"
  "createdFiles (traced c w) = createdFiles w" "trace (traced c w) = trace w @ [c]"
  "lateLog (traced c w) = lateLog w" "getFs t (traced c w) = getFs t w"
  by (simp_all add: traced_def getFs_def split: treeid.splits)

lemma getFs_setFs [simp]: "getFs t (setFs t' fs w) = (if t = t' then fs else getFs t w)"
  by (cases t; cases t'; simp add: getFs_def setFs_def)

lemma setFs_fields [simp]:
  "queue (setFs t fs w) = queue w" "createdFiles (setFs t fs w) = createdFiles w"
  "trace (setFs t fs w) = trace w" "lateLog (setFs t fs w) = lateLog w"
  by (cases t; simp add: setFs_def)+

lemma setFs_other [simp]:
  "localFs (setFs Work fs w) = localFs w" "localFs (setFs Remote fs w) = localFs w"
  "localFs (setFs Local fs w) = fs"
  by (simp_all add: setFs_def)

lemma FSTree_exists_Ok:
  "FSTree_exists env t n w = (Ok b, w') \<Longrightarrow>
     w' = traced (FsStat t n) w \<and> b = (fs_stat (getFs t w) n \<noteq> None)"
  by (auto simp: FSTree_exists_def invoke_Ok split: if_splits)

lemma FSTree_rename_Ok:
  "FSTree_rename env t a b w = (Ok u, w') \<Longrightarrow>
     \<exists>fs. w' = setFs t fs (traced (FsRename t a b) w)"
  by (auto simp: FSTree_rename_def invoke_Ok split: option.splits)

lemma createFileInstance_Ok:
  "createFileInstance env t p w = (Ok h, w') \<Longrightarrow>
     w' = traced (FSFileCreateInstance t p) w \<and> fs_stat (getFs t w) p = Some (isDirectory h) \<and>
     getPath h = p \<and> getName h = getPathName p"
  by (auto simp: createFileInstance_def invoke_Ok split: option.splits)


lemma getPathName_noslash: "CHR ''/'' \<notin> set (getPathName p)"
  unfolding getPathName_def by (auto dest: set_takeWhileD)

subsection \<open>The merge of \<^verbatim>\<open>list\<close>\<close>

lemma getProperty_setProperty:
  "getProperty (setProperty obj k i) name =
     (if name = k \<and> k \<noteq> ''__proto__'' then Some (Index i) else getProperty obj name)"
  by (simp add: getProperty_def setProperty_def)

lemma getProperty_Inherited:
  "getProperty obj name = Some Inherited \<Longrightarrow> name \<in> set objectPrototypeKeys"
  by (auto simp: getProperty_def objectPrototypeKeys_def split: if_splits option.splits)

lemma getProperty_empty:
  "getProperty Map.empty name = (if name \<in> set objectPrototypeKeys then Some Inherited else None)"
  by (auto simp: getProperty_def objectPrototypeKeys_def)

lemma elementAt_append:
  "elementAt ps v = Some x \<Longrightarrow> elementAt (ps @ qs) v = Some x"
  by (auto simp: elementAt_def nth_append split: option.splits jsvalue.splits if_splits)

lemma elementAt_last: "elementAt (ps @ [r]) (Some (Index (length ps))) = Some r"
  by (simp add: elementAt_def)

lemma lookupInv_skip:
  assumes "lookupInv S ps lk rl"
  shows "lookupInv S (ps @ [r]) lk rl"
  using assms unfolding lookupInv_def by (blast intro: elementAt_append)

lemma lookupInv_push:
  assumes "lookupInv S ps lk rl"
  shows "lookupInv (S @ [r]) (ps @ [r])
           (setProperty lk (getName r) (length S)) (setProperty rl (getName r) (length ps))"
proof -
  let ?lk = "setProperty lk (getName r) (length S)"
  let ?rl = "setProperty rl (getName r) (length ps)"
  have none: "name \<notin> getName ` set (S @ [r])" if "getProperty ?lk name = None" for name
  proof -
    from that have "getProperty lk name = None" "name \<noteq> getName r \<or> getName r = ''__proto__''"
      by (auto simp: getProperty_setProperty split: if_splits)
    moreover from this(1) have "name \<noteq> ''__proto__''" by (auto simp: getProperty_def)
    ultimately show ?thesis using assms unfolding lookupInv_def by auto
  qed
  have some: "ri < length (S @ [r]) \<and> getName ((S @ [r]) ! ri) = name \<and>
        elementAt (ps @ [r]) (getProperty ?rl name) = Some ((S @ [r]) ! ri)"
    if a: "getProperty ?lk name = Some (Index ri)" for name ri
  proof (cases "name = getName r \<and> getName r \<noteq> ''__proto__''")
    case True
    with a have "ri = length S" by (simp add: getProperty_setProperty)
    with True show ?thesis by (simp add: getProperty_setProperty elementAt_last)
  next
    case False
    with a have "getProperty lk name = Some (Index ri)" by (simp add: getProperty_setProperty)
    with assms have
      "ri < length S" "getName (S ! ri) = name" "elementAt ps (getProperty rl name) = Some (S ! ri)"
      unfolding lookupInv_def by blast+
    with False show ?thesis
      by (auto simp: getProperty_setProperty nth_append intro: elementAt_append)
  qed
  have inh: "name = ''__proto__'' \<or> name \<notin> getName ` set (S @ [r])"
    if "getProperty ?lk name = Some Inherited" for name
  proof -
    from that have "getProperty lk name = Some Inherited"
      "name \<noteq> getName r \<or> getName r = ''__proto__''"
      by (auto simp: getProperty_setProperty split: if_splits)
    with assms show ?thesis unfolding lookupInv_def by auto
  qed
  from none some inh show ?thesis unfolding lookupInv_def by blast
qed

lemma lookupInv_Index:
  assumes "lookupInv S ps lk rl" "getProperty lk name = Some (Index ri)"
  shows "ri < length S" "getName (S ! ri) = name"
    "elementAt ps (getProperty rl name) = Some (S ! ri)"
  using assms unfolding lookupInv_def by blast+

lemma lookupInv_found:
  assumes "lookupInv S ps lk rl" "name \<in> getName ` set S" "name \<noteq> ''__proto__''"
  shows "\<exists>ri. getProperty lk name = Some (Index ri)"
proof (cases "getProperty lk name")
  case None
  with assms show ?thesis unfolding lookupInv_def by blast
next
  case (Some v)
  with assms show ?thesis unfolding lookupInv_def by (cases v) auto
qed

lemma lookupInv_missing:
  assumes "lookupInv S ps lk rl" "name \<notin> getName ` set S" "name \<notin> set objectPrototypeKeys"
  shows "getProperty lk name = None"
proof (cases "getProperty lk name")
  case None
  then show ?thesis .
next
  case (Some v)
  show ?thesis
  proof (cases v)
    case (Index ri)
    with Some lookupInv_Index(1,2)[OF assms(1), of name ri] assms(2) show ?thesis
      by (metis imageI nth_mem)
  next
    case Inherited
    with Some getProperty_Inherited[of lk name] assms(3) show ?thesis by simp
  qed
qed

lemma remotePass_inv:
  assumes "rq = map (\<lambda>r. RQFromRemote (getPath r) r) (survivingRemote req ps)"
      and "lookupInv (survivingRemote req ps) ps lk rl"
  shows "\<exists>lk' rl'. remotePass (Some req) rs (length ps) (rq, lk, rl)
            = Some (map (\<lambda>r. RQFromRemote (getPath r) r) (survivingRemote req (ps @ rs)), lk', rl')
          \<and> lookupInv (survivingRemote req (ps @ rs)) (ps @ rs) lk' rl'"
  using assms
proof (induction rs arbitrary: ps rq lk rl)
  case Nil
  then show ?case by simp
next
  case (Cons r rs)
  show ?case
  proof (cases "req (getName r) \<noteq> Some ''DELETE''")
    case True
    have s: "survivingRemote req (ps @ [r]) = survivingRemote req ps @ [r]"
      using True by (simp add: survivingRemote_def)
    have len: "length rq = length (survivingRemote req ps)"
      using Cons.prems(1) by simp
    have inv: "lookupInv (survivingRemote req (ps @ [r])) (ps @ [r])
                 (setProperty lk (getName r) (length rq)) (setProperty rl (getName r) (length ps))"
      unfolding s len by (rule lookupInv_push[OF Cons.prems(2)])
    have rq': "rq @ [RQFromRemote (getPath r) r]
                 = map (\<lambda>r. RQFromRemote (getPath r) r) (survivingRemote req (ps @ [r]))"
      using Cons.prems(1) s by simp
    from Cons.IH[OF rq' inv] True show ?thesis
      by (simp add: RQFile_createInstanceFromRemote_def)
  next
    case False
    have s: "survivingRemote req (ps @ [r]) = survivingRemote req ps"
      using False by (simp add: survivingRemote_def)
    have inv: "lookupInv (survivingRemote req (ps @ [r])) (ps @ [r]) lk rl"
      unfolding s by (rule lookupInv_skip[OF Cons.prems(2)])
    have rq': "rq = map (\<lambda>r. RQFromRemote (getPath r) r) (survivingRemote req (ps @ [r]))"
      using Cons.prems(1) s by simp
    from Cons.IH[OF rq' inv] False show ?thesis by simp
  qed
qed

lemma remotePass_start:
  "\<exists>lk rl. remotePass (Some req) remoteFiles 0 ([], Map.empty, Map.empty)
      = Some (map (\<lambda>r. RQFromRemote (getPath r) r) (survivingRemote req remoteFiles), lk, rl)
    \<and> lookupInv (survivingRemote req remoteFiles) remoteFiles lk rl"
  using remotePass_inv[of "[]" req "[]" Map.empty Map.empty remoteFiles]
  by (simp add: survivingRemote_def lookupInv_def getProperty_empty)

lemma processLocal_step:
  assumes "processLocal env remoteFiles lk rl (l # ls) rqFiles w = (Ok files, w')"
  shows "\<exists>rq' w''. processLocal env remoteFiles lk rl ls rq' w'' = (Ok files, w') \<and>
     (rq' = rqFiles @ [localOnly env l] \<and> workFs w'' = workFs w \<and>
        (isTempFileName env (getName l) \<or>
         getProperty lk (getName l) = None \<and>
         (fs_stat (workFs w) (getCreateFileName (getPath l)) \<noteq> None \<or> \<not> canDeleteOf env (getPath l)))
      \<or> (\<exists>v. \<not> isTempFileName env (getName l) \<and> getProperty lk (getName l) = Some v \<and>
            workFs w'' = workFs w \<and>
            rq' = setElement rqFiles v
                    (case elementAt remoteFiles (getProperty rl (getName l)) of
                       Some r \<Rightarrow> RQFromLocalAndRemote (getPath l) l r
                     | None \<Rightarrow> RQFromLocal (getPath l) l))
      \<or> (rq' = rqFiles \<and> \<not> isTempFileName env (getName l) \<and> getProperty lk (getName l) = None \<and>
           fs_stat (workFs w) (getCreateFileName (getPath l)) = None \<and> canDeleteOf env (getPath l) \<and>
           workFs w'' = fs_remove (fs_remove (workFs w) (getPath l)) (getCreateFileName (getPath l))))"
  using assms
  apply (simp add: andThen_Ok invoke_Ok localOnly_def RQFile_createInstanceFromLocal_def
      RQFile_createInstanceFromLocalAndRemote_def FSTree_exists_def RQFile_canDelete_def
      FSFile_delete_def RQFile_deleteWorkFiles_def getFs_def
      split: if_splits option.splits)
  apply (auto simp: getFs_def)
  done

lemma length_setElement [simp]: "length (setElement xs v x) = length xs"
  by (cases v) (simp_all add: setElement_def)

lemma processLocal_step_inv:
  assumes "processLocal env remoteFiles lk rl (l # ls) rqFiles w = (Ok files, w')"
      and "lookupInv S remoteFiles lk rl"
  shows "\<exists>rq' w''. processLocal env remoteFiles lk rl ls rq' w'' = (Ok files, w') \<and>
     (rq' = rqFiles @ [localOnly env l] \<and>
        (isTempFileName env (getName l) \<or> getProperty lk (getName l) = None)
      \<or> (\<exists>ri. \<not> isTempFileName env (getName l) \<and> getProperty lk (getName l) = Some (Index ri) \<and>
            ri < length S \<and> getName (S ! ri) = getName l \<and>
            rq' = rqFiles[ri := RQFromLocalAndRemote (getPath l) l (S ! ri)])
      \<or> (rq' = rqFiles \<and> \<not> isTempFileName env (getName l)))"
proof -
  from processLocal_step[OF assms(1)] obtain rq' w'' where
    r: "processLocal env remoteFiles lk rl ls rq' w'' = (Ok files, w')" and
    c: "rq' = rqFiles @ [localOnly env l] \<and>
          (isTempFileName env (getName l) \<or> getProperty lk (getName l) = None)
      \<or> (\<exists>v. \<not> isTempFileName env (getName l) \<and> getProperty lk (getName l) = Some v \<and>
            rq' = setElement rqFiles v
                    (case elementAt remoteFiles (getProperty rl (getName l)) of
                       Some r \<Rightarrow> RQFromLocalAndRemote (getPath l) l r
                     | None \<Rightarrow> RQFromLocal (getPath l) l))
      \<or> (rq' = rqFiles \<and> \<not> isTempFileName env (getName l))"
    by blast
  from c consider
      (push) "rq' = rqFiles @ [localOnly env l]"
        "isTempFileName env (getName l) \<or> getProperty lk (getName l) = None"
    | (repl) v where "\<not> isTempFileName env (getName l)" "getProperty lk (getName l) = Some v"
        "rq' = setElement rqFiles v
                    (case elementAt remoteFiles (getProperty rl (getName l)) of
                       Some r \<Rightarrow> RQFromLocalAndRemote (getPath l) l r
                     | None \<Rightarrow> RQFromLocal (getPath l) l)"
    | (skip) "rq' = rqFiles" "\<not> isTempFileName env (getName l)"
    by auto
  then show ?thesis
  proof cases
    case push
    with r show ?thesis by blast
  next
    case repl
    show ?thesis
    proof (cases v)
      case (Index ri)
      from lookupInv_Index[OF assms(2) repl(2)[unfolded Index]] have
        "ri < length S" "getName (S ! ri) = getName l"
        "elementAt remoteFiles (getProperty rl (getName l)) = Some (S ! ri)"
        by auto
      with repl Index have "rq' = rqFiles[ri := RQFromLocalAndRemote (getPath l) l (S ! ri)]"
        "getProperty lk (getName l) = Some (Index ri)" "ri < length S" "getName (S ! ri) = getName l"
        by (simp_all add: setElement_def)
      with r repl(1) show ?thesis by blast
    next
      case Inherited
      with repl have "rq' = rqFiles" by (simp add: setElement_def)
      with r repl(1) show ?thesis by blast
    qed
  next
    case skip
    with r show ?thesis by blast
  qed
qed

lemma processLocal_length:
  assumes "processLocal env remoteFiles lk rl ls rqFiles w = (Ok files, w')"
  shows "length rqFiles \<le> length files"
  using assms
proof (induction ls arbitrary: rqFiles w)
  case Nil
  then show ?case by simp
next
  case (Cons l ls)
  from processLocal_step[OF Cons.prems] obtain rq' w'' where
    r: "processLocal env remoteFiles lk rl ls rq' w'' = (Ok files, w')" and
    l: "length rqFiles \<le> length rq'"
    by auto
  from Cons.IH[OF r] l show ?case by simp
qed

lemma map_of_filter_key:
  "map_of (filter (\<lambda>e. fst e \<noteq> n) xs) k = (if k = n then None else map_of xs k)"
  by (induction xs) auto

lemma fs_stat_fs_remove:
  "fs_stat (fs_remove fs q) p =
     (if p \<noteq> [] \<and> dirOf p = dirOf q \<and> getPathName p = getPathName q then None else fs_stat fs p)"
  by (simp add: fs_stat_def fs_remove_def map_of_filter_key)

lemma processLocal_work_shrinks:
  assumes "processLocal env remoteFiles lk rl ls rqFiles w = (Ok files, w')"
      and "fs_stat (workFs w') p \<noteq> None"
  shows "fs_stat (workFs w) p \<noteq> None"
  using assms
proof (induction ls arbitrary: rqFiles w)
  case Nil
  then show ?case by simp
next
  case (Cons l ls)
  from processLocal_step[OF Cons.prems(1)] obtain rq' w'' where
    r: "processLocal env remoteFiles lk rl ls rq' w'' = (Ok files, w')" and
    c: "workFs w'' = workFs w \<or>
        workFs w'' = fs_remove (fs_remove (workFs w) (getPath l)) (getCreateFileName (getPath l))"
    by blast
  from Cons.IH[OF r Cons.prems(2)] have "fs_stat (workFs w'') p \<noteq> None" .
  with c show ?case by (auto simp: fs_stat_fs_remove split: if_splits)
qed

lemma processLocal_tail:
  assumes "processLocal env remoteFiles lk rl ls rqFiles w = (Ok files, w')"
      and "lookupInv S remoteFiles lk rl"
      and "length S \<le> length rqFiles"
  shows "\<exists>kept. subseq kept ls \<and>
           drop (length S) files = drop (length S) rqFiles @ map (localOnly env) kept \<and>
           (\<forall>l\<in>set kept. isTempFileName env (getName l) \<or>
               getProperty lk (getName l) = None \<and>
               (fs_stat (workFs w) (getCreateFileName (getPath l)) \<noteq> None \<or>
                \<not> canDeleteOf env (getPath l))) \<and>
           (\<forall>l\<in>set ls. isTempFileName env (getName l) \<or>
               getProperty lk (getName l) = None \<and>
               (fs_stat (workFs w') (getCreateFileName (getPath l)) \<noteq> None \<or>
                \<not> canDeleteOf env (getPath l)) \<longrightarrow> l \<in> set kept)"
  using assms
proof (induction ls arbitrary: rqFiles w)
  case Nil
  then show ?case by auto
next
  case (Cons l ls)
  let ?up = "\<lambda>v x. isTempFileName env (getName x) \<or>
               getProperty lk (getName x) = None \<and>
               (fs_stat (workFs v) (getCreateFileName (getPath x)) \<noteq> None \<or>
                \<not> canDeleteOf env (getPath x))"
  from processLocal_step[OF Cons.prems(1)] obtain rq' w'' where
    r: "processLocal env remoteFiles lk rl ls rq' w'' = (Ok files, w')" and
    c: "rq' = rqFiles @ [localOnly env l] \<and> workFs w'' = workFs w \<and>
        (isTempFileName env (getName l) \<or>
         getProperty lk (getName l) = None \<and>
         (fs_stat (workFs w) (getCreateFileName (getPath l)) \<noteq> None \<or> \<not> canDeleteOf env (getPath l)))
      \<or> (\<exists>v. \<not> isTempFileName env (getName l) \<and> getProperty lk (getName l) = Some v \<and>
            workFs w'' = workFs w \<and>
            rq' = setElement rqFiles v
                    (case elementAt remoteFiles (getProperty rl (getName l)) of
                       Some r \<Rightarrow> RQFromLocalAndRemote (getPath l) l r
                     | None \<Rightarrow> RQFromLocal (getPath l) l))
      \<or> (rq' = rqFiles \<and> \<not> isTempFileName env (getName l) \<and> getProperty lk (getName l) = None \<and>
           fs_stat (workFs w) (getCreateFileName (getPath l)) = None \<and> canDeleteOf env (getPath l) \<and>
           workFs w'' = fs_remove (fs_remove (workFs w) (getPath l)) (getCreateFileName (getPath l)))"
    by blast
  from c Cons.prems(3) have len: "length S \<le> length rq'"
    by auto
  from Cons.IH[OF r Cons.prems(2) len] obtain kept where
    k: "subseq kept ls"
       "drop (length S) files = drop (length S) rq' @ map (localOnly env) kept"
       "\<forall>x\<in>set kept. ?up w'' x"
       "\<forall>x\<in>set ls. ?up w' x \<longrightarrow> x \<in> set kept"
    by blast
  from c consider
      (push) "rq' = rqFiles @ [localOnly env l]" "workFs w'' = workFs w" "?up w l"
    | (repl) v where "\<not> isTempFileName env (getName l)" "getProperty lk (getName l) = Some v"
        "workFs w'' = workFs w"
        "rq' = setElement rqFiles v
                    (case elementAt remoteFiles (getProperty rl (getName l)) of
                       Some r \<Rightarrow> RQFromLocalAndRemote (getPath l) l r
                     | None \<Rightarrow> RQFromLocal (getPath l) l)"
    | (skip) "rq' = rqFiles" "\<not> isTempFileName env (getName l)"
        "fs_stat (workFs w) (getCreateFileName (getPath l)) = None" "canDeleteOf env (getPath l)"
        "workFs w'' = fs_remove (fs_remove (workFs w) (getPath l)) (getCreateFileName (getPath l))"
    by auto
  then show ?case
  proof cases
    case push
    with k Cons.prems(3) have
      "subseq (l # kept) (l # ls)"
      "drop (length S) files = drop (length S) rqFiles @ map (localOnly env) (l # kept)"
      "\<forall>x\<in>set (l # kept). ?up w x"
      "\<forall>x\<in>set (l # ls). ?up w' x \<longrightarrow> x \<in> set (l # kept)"
      by auto
    then show ?thesis by blast
  next
    case repl
    have d: "drop (length S) rq' = drop (length S) rqFiles"
    proof (cases v)
      case (Index ri)
      from lookupInv_Index(1)[OF Cons.prems(2) repl(2)[unfolded Index]] have "ri < length S" .
      with repl(4) Index show ?thesis by (simp add: setElement_def)
    next
      case Inherited
      with repl(4) show ?thesis by (simp add: setElement_def)
    qed
    with k repl(3) have
      "subseq kept (l # ls)"
      "drop (length S) files = drop (length S) rqFiles @ map (localOnly env) kept"
      "\<forall>x\<in>set kept. ?up w x"
      by (auto intro: subseq_Cons')
    moreover from k(4) repl(1,2) have "\<forall>x\<in>set (l # ls). ?up w' x \<longrightarrow> x \<in> set kept"
      by auto
    ultimately show ?thesis by blast
  next
    case skip
    have gone: "fs_stat (workFs w'') (getCreateFileName (getPath l)) = None"
      unfolding skip(5) by (simp add: fs_stat_fs_remove getCreateFileName_def)
    with processLocal_work_shrinks[OF r, of "getCreateFileName (getPath l)"]
    have "fs_stat (workFs w') (getCreateFileName (getPath l)) = None" by blast
    with skip(2,4) have notl: "\<not> ?up w' l" by simp
    have mono: "fs_stat (workFs w) p \<noteq> None" if "fs_stat (workFs w'') p \<noteq> None" for p
      using that unfolding skip(5) by (auto simp: fs_stat_fs_remove split: if_splits)
    from k(3) mono have "\<forall>x\<in>set kept. ?up w x" by blast
    moreover from k skip(1) have
      "subseq kept (l # ls)"
      "drop (length S) files = drop (length S) rqFiles @ map (localOnly env) kept"
      by (auto intro: subseq_Cons')
    moreover from k(4) notl have "\<forall>x\<in>set (l # ls). ?up w' x \<longrightarrow> x \<in> set kept"
      by auto
    ultimately show ?thesis by blast
  qed
qed


lemma processLocal_head:
  assumes "processLocal env remoteFiles lk rl ls rqFiles w = (Ok files, w')"
      and "lookupInv S remoteFiles lk rl"
      and "length S \<le> length rqFiles"
      and "i < length S"
  shows "files ! i = rqFiles ! i \<or>
         (\<exists>l\<in>set ls. \<not> isTempFileName env (getName l) \<and> getName l = getName (S ! i) \<and>
            getProperty lk (getName l) = Some (Index i) \<and>
            files ! i = RQFromLocalAndRemote (getPath l) l (S ! i))"
  using assms
proof (induction ls arbitrary: rqFiles w)
  case Nil
  then show ?case by simp
next
  case (Cons l ls)
  from processLocal_step_inv[OF Cons.prems(1,2)] obtain rq' w'' where
    r: "processLocal env remoteFiles lk rl ls rq' w'' = (Ok files, w')" and
    c: "rq' = rqFiles @ [localOnly env l] \<and>
        (isTempFileName env (getName l) \<or> getProperty lk (getName l) = None)
      \<or> (\<exists>ri. \<not> isTempFileName env (getName l) \<and> getProperty lk (getName l) = Some (Index ri) \<and>
            ri < length S \<and> getName (S ! ri) = getName l \<and>
            rq' = rqFiles[ri := RQFromLocalAndRemote (getPath l) l (S ! ri)])
      \<or> (rq' = rqFiles \<and> \<not> isTempFileName env (getName l))"
    by blast
  from c Cons.prems(3) have len: "length S \<le> length rq'" by auto
  from Cons.IH[OF r Cons.prems(2) len Cons.prems(4)] have
    ih: "files ! i = rq' ! i \<or>
         (\<exists>l\<in>set ls. \<not> isTempFileName env (getName l) \<and> getName l = getName (S ! i) \<and>
            getProperty lk (getName l) = Some (Index i) \<and>
            files ! i = RQFromLocalAndRemote (getPath l) l (S ! i))" .
  from c consider
      (push) "rq' = rqFiles @ [localOnly env l]"
    | (repl) ri where "\<not> isTempFileName env (getName l)"
        "getProperty lk (getName l) = Some (Index ri)" "ri < length S"
        "getName (S ! ri) = getName l"
        "rq' = rqFiles[ri := RQFromLocalAndRemote (getPath l) l (S ! ri)]"
    | (skip) "rq' = rqFiles"
    by auto
  then show ?case
  proof cases
    case push
    with Cons.prems(3,4) have "rq' ! i = rqFiles ! i" by (simp add: nth_append)
    with ih show ?thesis by auto
  next
    case repl
    show ?thesis
    proof (cases "i = ri")
      case True
      with repl Cons.prems(3) have
        "rq' ! i = RQFromLocalAndRemote (getPath l) l (S ! i)" by simp
      with ih True repl show ?thesis by auto
    next
      case False
      with repl have "rq' ! i = rqFiles ! i" by simp
      with ih show ?thesis by auto
    qed
  next
    case skip
    with ih show ?thesis by auto
  qed
qed

lemma processLocal_merged:
  assumes "processLocal env remoteFiles lk rl ls rqFiles w = (Ok files, w')"
      and "lookupInv S remoteFiles lk rl"
      and "length S \<le> length rqFiles"
      and "l \<in> set ls" "\<not> isTempFileName env (getName l)"
      and "getProperty lk (getName l) = Some (Index ri)"
  shows "\<exists>l'\<in>set ls. \<not> isTempFileName env (getName l') \<and> getName l' = getName l \<and>
            files ! ri = RQFromLocalAndRemote (getPath l') l' (S ! ri)"
  using assms
proof (induction ls arbitrary: rqFiles w)
  case Nil
  then show ?case by simp
next
  case (Cons x ls)
  from processLocal_step_inv[OF Cons.prems(1,2)] obtain rq' w'' where
    r: "processLocal env remoteFiles lk rl ls rq' w'' = (Ok files, w')" and
    c: "rq' = rqFiles @ [localOnly env x] \<and>
        (isTempFileName env (getName x) \<or> getProperty lk (getName x) = None)
      \<or> (\<exists>ri. \<not> isTempFileName env (getName x) \<and> getProperty lk (getName x) = Some (Index ri) \<and>
            ri < length S \<and> getName (S ! ri) = getName x \<and>
            rq' = rqFiles[ri := RQFromLocalAndRemote (getPath x) x (S ! ri)])
      \<or> (rq' = rqFiles \<and> \<not> isTempFileName env (getName x))"
    by blast
  from c Cons.prems(3) have len: "length S \<le> length rq'" by auto
  from lookupInv_Index(1,2)[OF Cons.prems(2,6)] have
    ri: "ri < length S" "getName (S ! ri) = getName l"
    by auto
  show ?case
  proof (cases "l \<in> set ls")
    case True
    from Cons.IH[OF r Cons.prems(2) len True Cons.prems(5,6)] show ?thesis by auto
  next
    case False
    with Cons.prems(4) have lx: "l = x" by simp
    from processLocal_step[OF Cons.prems(1)] Cons.prems(5,6) lx obtain rq2 w2 where
      r2: "processLocal env remoteFiles lk rl ls rq2 w2 = (Ok files, w')" and
      e2: "rq2 = setElement rqFiles (Index ri)
                    (case elementAt remoteFiles (getProperty rl (getName x)) of
                       Some r \<Rightarrow> RQFromLocalAndRemote (getPath x) x r
                     | None \<Rightarrow> RQFromLocal (getPath x) x)"
      by auto
    from lookupInv_Index(3)[OF Cons.prems(2,6)] lx have
      "elementAt remoteFiles (getProperty rl (getName x)) = Some (S ! ri)" by simp
    with e2 have e3: "rq2 = rqFiles[ri := RQFromLocalAndRemote (getPath x) x (S ! ri)]"
      by (simp add: setElement_def)
    with ri Cons.prems(3) have now: "rq2 ! ri = RQFromLocalAndRemote (getPath x) x (S ! ri)"
      by simp
    from e3 Cons.prems(3) have len2: "length S \<le> length rq2" by simp
    from processLocal_head[OF r2 Cons.prems(2) len2 ri(1)] have
      "files ! ri = rq2 ! ri \<or>
         (\<exists>l\<in>set ls. \<not> isTempFileName env (getName l) \<and> getName l = getName (S ! ri) \<and>
            getProperty lk (getName l) = Some (Index ri) \<and>
            files ! ri = RQFromLocalAndRemote (getPath l) l (S ! ri))" .
    with now lx ri Cons.prems(5) show ?thesis by auto
  qed
qed

lemma list_merge_shape:
  assumes "list_merge env remoteFiles localFiles err (Some req) w = (Ok files, w')"
  shows "\<exists>kept. subseq kept localFiles \<and> length (survivingRemote req remoteFiles) \<le> length files \<and>
           drop (length (survivingRemote req remoteFiles)) files = map (localOnly env) kept \<and>
           (\<forall>l\<in>set kept. isTempFileName env (getName l) \<or>
               getName l \<notin> getName ` set (survivingRemote req remoteFiles) \<and>
               (fs_stat (workFs w) (getCreateFileName (getPath l)) \<noteq> None \<or>
                \<not> canDeleteOf env (getPath l))) \<and>
           (\<forall>l\<in>set localFiles. isTempFileName env (getName l) \<or>
               getName l \<notin> getName ` set (survivingRemote req remoteFiles) \<and>
               getName l \<notin> set objectPrototypeKeys \<and>
               (fs_stat (workFs w') (getCreateFileName (getPath l)) \<noteq> None \<or>
                \<not> canDeleteOf env (getPath l)) \<longrightarrow> l \<in> set kept)"
    and "\<forall>i<length (survivingRemote req remoteFiles).
           files ! i = RQFromRemote (getPath (survivingRemote req remoteFiles ! i)) (survivingRemote req remoteFiles ! i) \<or>
           (\<exists>l\<in>set localFiles. \<not> isTempFileName env (getName l) \<and>
              getName l = getName (survivingRemote req remoteFiles ! i) \<and>
              files ! i = RQFromLocalAndRemote (getPath l) l (survivingRemote req remoteFiles ! i))"
    and "\<forall>l\<in>set localFiles. \<forall>i<length (survivingRemote req remoteFiles).
           \<not> isTempFileName env (getName l) \<and> getName (survivingRemote req remoteFiles ! i) = getName l \<and>
           getName l \<noteq> ''__proto__'' \<and>
           distinct (map getName (survivingRemote req remoteFiles)) \<longrightarrow>
           (\<exists>l'\<in>set localFiles. \<not> isTempFileName env (getName l') \<and> getName l' = getName l \<and>
              files ! i = RQFromLocalAndRemote (getPath l') l' (survivingRemote req remoteFiles ! i))"
proof -
  let ?S = "survivingRemote req remoteFiles"
  let ?rq = "map (\<lambda>r. RQFromRemote (getPath r) r) ?S"
  from remotePass_start[of req remoteFiles] obtain lk rl where
    rp: "remotePass (Some req) remoteFiles 0 ([], Map.empty, Map.empty) = Some (?rq, lk, rl)" and
    inv: "lookupInv ?S remoteFiles lk rl"
    by blast
  from assms rp have pl: "processLocal env remoteFiles lk rl localFiles ?rq w = (Ok files, w')"
    by (simp add: list_merge_def)
  have len: "length ?S \<le> length ?rq" by simp
  from processLocal_tail[OF pl inv len] obtain kept where
    k: "subseq kept localFiles"
       "drop (length ?S) files = drop (length ?S) ?rq @ map (localOnly env) kept"
       "\<forall>l\<in>set kept. isTempFileName env (getName l) \<or>
               getProperty lk (getName l) = None \<and>
               (fs_stat (workFs w) (getCreateFileName (getPath l)) \<noteq> None \<or>
                \<not> canDeleteOf env (getPath l))"
       "\<forall>l\<in>set localFiles. isTempFileName env (getName l) \<or>
               getProperty lk (getName l) = None \<and>
               (fs_stat (workFs w') (getCreateFileName (getPath l)) \<noteq> None \<or>
                \<not> canDeleteOf env (getPath l)) \<longrightarrow> l \<in> set kept"
    by blast
  from processLocal_length[OF pl] have lf: "length ?S \<le> length files" by simp
  have n1: "name \<notin> getName ` set ?S" if "getProperty lk name = None" for name
    using inv that unfolding lookupInv_def by blast
  have n2: "getProperty lk name = None"
    if "name \<notin> getName ` set ?S" "name \<notin> set objectPrototypeKeys" for name
    using lookupInv_missing[OF inv that] .
  from k(3) n1 have up: "\<forall>l\<in>set kept. isTempFileName env (getName l) \<or>
               getName l \<notin> getName ` set ?S \<and>
               (fs_stat (workFs w) (getCreateFileName (getPath l)) \<noteq> None \<or>
                \<not> canDeleteOf env (getPath l))"
    by blast
  from k(4) n2 have lo: "\<forall>l\<in>set localFiles. isTempFileName env (getName l) \<or>
               getName l \<notin> getName ` set ?S \<and> getName l \<notin> set objectPrototypeKeys \<and>
               (fs_stat (workFs w') (getCreateFileName (getPath l)) \<noteq> None \<or>
                \<not> canDeleteOf env (getPath l)) \<longrightarrow> l \<in> set kept"
    by blast
  from k(2) have dr: "drop (length ?S) files = map (localOnly env) kept" by simp
  from k(1) lf dr up lo
  show "\<exists>kept. subseq kept localFiles \<and> length ?S \<le> length files \<and>
           drop (length ?S) files = map (localOnly env) kept \<and>
           (\<forall>l\<in>set kept. isTempFileName env (getName l) \<or>
               getName l \<notin> getName ` set ?S \<and>
               (fs_stat (workFs w) (getCreateFileName (getPath l)) \<noteq> None \<or>
                \<not> canDeleteOf env (getPath l))) \<and>
           (\<forall>l\<in>set localFiles. isTempFileName env (getName l) \<or>
               getName l \<notin> getName ` set ?S \<and>
               getName l \<notin> set objectPrototypeKeys \<and>
               (fs_stat (workFs w') (getCreateFileName (getPath l)) \<noteq> None \<or>
                \<not> canDeleteOf env (getPath l)) \<longrightarrow> l \<in> set kept)"
    by (intro exI[of _ kept] conjI)
  show "\<forall>i<length ?S.
           files ! i = RQFromRemote (getPath (?S ! i)) (?S ! i) \<or>
           (\<exists>l\<in>set localFiles. \<not> isTempFileName env (getName l) \<and>
              getName l = getName (?S ! i) \<and>
              files ! i = RQFromLocalAndRemote (getPath l) l (?S ! i))"
  proof (intro allI impI)
    fix i assume i: "i < length ?S"
    from processLocal_head[OF pl inv len i] i
    show "files ! i = RQFromRemote (getPath (?S ! i)) (?S ! i) \<or>
           (\<exists>l\<in>set localFiles. \<not> isTempFileName env (getName l) \<and>
              getName l = getName (?S ! i) \<and>
              files ! i = RQFromLocalAndRemote (getPath l) l (?S ! i))"
      by auto
  qed
  show "\<forall>l\<in>set localFiles. \<forall>i<length ?S.
           \<not> isTempFileName env (getName l) \<and> getName (?S ! i) = getName l \<and>
           getName l \<noteq> ''__proto__'' \<and>
           distinct (map getName ?S) \<longrightarrow>
           (\<exists>l'\<in>set localFiles. \<not> isTempFileName env (getName l') \<and> getName l' = getName l \<and>
              files ! i = RQFromLocalAndRemote (getPath l') l' (?S ! i))"
  proof (intro ballI allI impI)
    fix l i
    assume l: "l \<in> set localFiles" and i: "i < length ?S"
      and h: "\<not> isTempFileName env (getName l) \<and> getName (?S ! i) = getName l \<and>
                getName l \<noteq> ''__proto__'' \<and> distinct (map getName ?S)"
    from i h have "getName l \<in> getName ` set ?S" by (metis imageI nth_mem)
    with lookupInv_found[OF inv] h obtain ri where ri: "getProperty lk (getName l) = Some (Index ri)"
      by blast
    from lookupInv_Index(1,2)[OF inv ri] have r2: "ri < length ?S" "getName (?S ! ri) = getName l"
      by auto
    from h have d: "distinct (map getName ?S)" by simp
    from r2 i h have "map getName ?S ! ri = map getName ?S ! i" by simp
    with d r2(1) i have "ri = i"
      using nth_eq_iff_index_eq[of "map getName ?S" ri i] by simp
    with processLocal_merged[OF pl inv len l _ ri] h
    show "\<exists>l'\<in>set localFiles. \<not> isTempFileName env (getName l') \<and> getName l' = getName l \<and>
              files ! i = RQFromLocalAndRemote (getPath l') l' (?S ! i)"
      by auto
  qed
qed

lemma remotePass_keys:
  assumes "remotePass (Some req) remoteFiles 0 ([], Map.empty, Map.empty) = Some (rqFiles, lk, rl)"
      and "getProperty lk name = Some (Index ri)"
  shows "ri < length rqFiles \<and>
         (\<exists>r. elementAt remoteFiles (getProperty rl name) = Some r \<and> getName r = name)"
proof -
  from remotePass_start[of req remoteFiles] assms(1) have
    "rqFiles = map (\<lambda>r. RQFromRemote (getPath r) r) (survivingRemote req remoteFiles)"
    "lookupInv (survivingRemote req remoteFiles) remoteFiles lk rl"
    by auto
  with lookupInv_Index[OF this(2) assms(2)] show ?thesis by simp
qed

lemma subseq_set: "subseq xs ys \<Longrightarrow> x \<in> set xs \<Longrightarrow> x \<in> set ys"
  by (auto elim: list_emb_set)

lemma list_merge_None:
  "list_merge env remoteFiles localFiles err None w =
     (if remoteFiles = [] then processLocal env [] Map.empty Map.empty localFiles [] w
      else (Throws, w))"
  by (cases remoteFiles) (simp_all add: list_merge_def)

lemma list_merge_empty_remote:
  "list_merge env [] localFiles err requests w =
     processLocal env [] Map.empty Map.empty localFiles [] w"
  by (simp add: list_merge_def)

lemma fs_stat_samePlace:
  "samePlace p q \<Longrightarrow> p \<noteq> [] \<Longrightarrow> q \<noteq> [] \<Longrightarrow> fs_stat fs p = fs_stat fs q"
  by (simp add: fs_stat_def samePlace_def)

lemma fs_stat_fs_remove_place:
  "fs_stat (fs_remove fs q) p = (if p \<noteq> [] \<and> samePlace p q then None else fs_stat fs p)"
  by (simp add: fs_stat_fs_remove samePlace_def)

lemma processLocal_exact:
  assumes "processLocal env remoteFiles lk rl ls rqFiles w = (Ok files, w')"
      and "lookupInv S remoteFiles lk rl"
      and "length S \<le> length rqFiles"
      and "\<forall>y\<in>set ls. \<forall>x\<in>set ls. \<not> isTempFileName env (getName y) \<longrightarrow>
             \<not> samePlace (getCreateFileName (getPath y)) (getPath x)"
  shows "drop (length S) files = drop (length S) rqFiles @
           map (localOnly env)
             (filter (\<lambda>l. isTempFileName env (getName l) \<or>
                          getProperty lk (getName l) = None \<and>
                          (fs_stat (workFs w) (getCreateFileName (getPath l)) \<noteq> None \<or>
                           \<not> canDeleteOf env (getPath l))) ls)"
  using assms
proof (induction ls arbitrary: rqFiles w)
  case Nil
  then show ?case by simp
next
  case (Cons l ls)
  let ?P = "\<lambda>v x. isTempFileName env (getName x) \<or>
               getProperty lk (getName x) = None \<and>
               (fs_stat (workFs v) (getCreateFileName (getPath x)) \<noteq> None \<or>
                \<not> canDeleteOf env (getPath x))"
  from processLocal_step[OF Cons.prems(1)] obtain rq' w'' where
    r: "processLocal env remoteFiles lk rl ls rq' w'' = (Ok files, w')" and
    c: "rq' = rqFiles @ [localOnly env l] \<and> workFs w'' = workFs w \<and>
        (isTempFileName env (getName l) \<or>
         getProperty lk (getName l) = None \<and>
         (fs_stat (workFs w) (getCreateFileName (getPath l)) \<noteq> None \<or> \<not> canDeleteOf env (getPath l)))
      \<or> (\<exists>v. \<not> isTempFileName env (getName l) \<and> getProperty lk (getName l) = Some v \<and>
            workFs w'' = workFs w \<and>
            rq' = setElement rqFiles v
                    (case elementAt remoteFiles (getProperty rl (getName l)) of
                       Some r \<Rightarrow> RQFromLocalAndRemote (getPath l) l r
                     | None \<Rightarrow> RQFromLocal (getPath l) l))
      \<or> (rq' = rqFiles \<and> \<not> isTempFileName env (getName l) \<and> getProperty lk (getName l) = None \<and>
           fs_stat (workFs w) (getCreateFileName (getPath l)) = None \<and> canDeleteOf env (getPath l) \<and>
           workFs w'' = fs_remove (fs_remove (workFs w) (getPath l)) (getCreateFileName (getPath l)))"
    by blast
  from c Cons.prems(3) have len: "length S \<le> length rq'" by auto
  from Cons.prems(4) have reg: "\<forall>y\<in>set ls. \<forall>x\<in>set ls. \<not> isTempFileName env (getName y) \<longrightarrow>
             \<not> samePlace (getCreateFileName (getPath y)) (getPath x)"
    by simp
  from Cons.IH[OF r Cons.prems(2) len reg] have
    ih: "drop (length S) files = drop (length S) rq' @ map (localOnly env) (filter (?P w'') ls)" .
  from c consider
      (push) "rq' = rqFiles @ [localOnly env l]" "workFs w'' = workFs w" "?P w l"
    | (repl) v where "\<not> isTempFileName env (getName l)" "getProperty lk (getName l) = Some v"
        "workFs w'' = workFs w"
        "rq' = setElement rqFiles v
                    (case elementAt remoteFiles (getProperty rl (getName l)) of
                       Some r \<Rightarrow> RQFromLocalAndRemote (getPath l) l r
                     | None \<Rightarrow> RQFromLocal (getPath l) l)"
    | (skip) "rq' = rqFiles" "\<not> isTempFileName env (getName l)"
        "getProperty lk (getName l) = None"
        "fs_stat (workFs w) (getCreateFileName (getPath l)) = None" "canDeleteOf env (getPath l)"
        "workFs w'' = fs_remove (fs_remove (workFs w) (getPath l)) (getCreateFileName (getPath l))"
    by auto
  then show ?case
  proof cases
    case push
    from push(2) have "filter (?P w'') ls = filter (?P w) ls" by simp
    with ih push Cons.prems(3) show ?thesis by simp
  next
    case repl
    have d: "drop (length S) rq' = drop (length S) rqFiles"
    proof (cases v)
      case (Index ri)
      from lookupInv_Index(1)[OF Cons.prems(2) repl(2)[unfolded Index]] have "ri < length S" .
      with repl(4) Index show ?thesis by (simp add: setElement_def)
    next
      case Inherited
      with repl(4) show ?thesis by (simp add: setElement_def)
    qed
    from repl(3) have "filter (?P w'') ls = filter (?P w) ls" by simp
    moreover from repl(1,2) have "\<not> ?P w l" by simp
    ultimately show ?thesis using ih d by simp
  next
    case skip
    have same: "?P w'' y = ?P w y" if y: "y \<in> set ls" for y
    proof (cases "isTempFileName env (getName y)")
      case True
      then show ?thesis by simp
    next
      case False
      let ?m = "getCreateFileName (getPath y)"
      have ne: "?m \<noteq> []" "getCreateFileName (getPath l) \<noteq> []"
        by (simp_all add: getCreateFileName_def)
      from Cons.prems(4) y False have np: "\<not> samePlace ?m (getPath l)" by simp
      have "fs_stat (workFs w'') ?m = fs_stat (workFs w) ?m"
      proof (cases "samePlace ?m (getCreateFileName (getPath l))")
        case True
        from fs_stat_samePlace[OF True ne] skip(4) have "fs_stat (workFs w) ?m = None" by simp
        moreover from True ne have "fs_stat (workFs w'') ?m = None"
          unfolding skip(6) by (simp add: fs_stat_fs_remove_place)
        ultimately show ?thesis by simp
      next
        case False
        with np show ?thesis unfolding skip(6) by (simp add: fs_stat_fs_remove_place)
      qed
      then show ?thesis by simp
    qed
    then have "filter (?P w'') ls = filter (?P w) ls"
      by (intro filter_cong) simp_all
    moreover from skip(2,4,5) have "\<not> ?P w l" by simp
    ultimately show ?thesis using ih skip(1) by simp
  qed
qed

lemma list_merge_exact:
  assumes "list_merge env remoteFiles localFiles err (Some req) w = (Ok files, w')"
      and "regularListing env localFiles"
  shows "drop (length (survivingRemote req remoteFiles)) files =
           map (localOnly env)
             (filter (appendedLocal env (survivingRemote req remoteFiles) (workFs w)) localFiles)"
proof -
  let ?S = "survivingRemote req remoteFiles"
  let ?rq = "map (\<lambda>r. RQFromRemote (getPath r) r) ?S"
  from remotePass_start[of req remoteFiles] obtain lk rl where
    rp: "remotePass (Some req) remoteFiles 0 ([], Map.empty, Map.empty) = Some (?rq, lk, rl)" and
    inv: "lookupInv ?S remoteFiles lk rl"
    by blast
  from assms(1) rp have pl: "processLocal env remoteFiles lk rl localFiles ?rq w = (Ok files, w')"
    by (simp add: list_merge_def)
  have len: "length ?S \<le> length ?rq" by simp
  from assms(2) have reg: "\<forall>y\<in>set localFiles. \<forall>x\<in>set localFiles.
      \<not> isTempFileName env (getName y) \<longrightarrow> \<not> samePlace (getCreateFileName (getPath y)) (getPath x)"
    unfolding regularListing_def by blast
  have eq: "(isTempFileName env (getName l) \<or>
               getProperty lk (getName l) = None \<and>
               (fs_stat (workFs w) (getCreateFileName (getPath l)) \<noteq> None \<or>
                \<not> canDeleteOf env (getPath l))) = appendedLocal env ?S (workFs w) l"
    if l: "l \<in> set localFiles" for l
  proof (cases "isTempFileName env (getName l)")
    case True
    then show ?thesis by (simp add: appendedLocal_def)
  next
    case False
    with assms(2) l have k: "getName l \<notin> set objectPrototypeKeys"
      unfolding regularListing_def by blast
    have "(getProperty lk (getName l) = None) = (getName l \<notin> getName ` set ?S)"
    proof
      assume "getProperty lk (getName l) = None"
      with inv show "getName l \<notin> getName ` set ?S" unfolding lookupInv_def by blast
    next
      assume "getName l \<notin> getName ` set ?S"
      from lookupInv_missing[OF inv this k] show "getProperty lk (getName l) = None" .
    qed
    with False show ?thesis by (simp add: appendedLocal_def)
  qed
  then have "filter (\<lambda>l. isTempFileName env (getName l) \<or>
               getProperty lk (getName l) = None \<and>
               (fs_stat (workFs w) (getCreateFileName (getPath l)) \<noteq> None \<or>
                \<not> canDeleteOf env (getPath l))) localFiles
             = filter (appendedLocal env ?S (workFs w)) localFiles"
    by (intro filter_cong) simp_all
  with processLocal_exact[OF pl inv len reg] show ?thesis by simp
qed

lemma localOnly_inj: "map (localOnly env) xs = map (localOnly env) ys \<Longrightarrow> xs = ys"
proof -
  have "inj (localOnly env)" by (rule injI) (simp add: localOnly_def)
  then show "map (localOnly env) xs = map (localOnly env) ys \<Longrightarrow> xs = ys"
    by (simp add: inj_map_eq_map)
qed

lemma list_merge_files:
  assumes "list_merge env remoteFiles localFiles err requests w = (Ok files, w')"
      and "f \<in> set files"
  shows "(\<exists>l\<in>set localFiles. rqPath f = getPath l \<or> rqPath f = getName l) \<or>
         (\<exists>r\<in>set remoteFiles. \<exists>req. requests = Some req \<and> req (getName r) \<noteq> Some ''DELETE'' \<and>
            rqPath f = getPath r)"
proof -
  have main: "(\<exists>l\<in>set localFiles. rqPath f = getPath l \<or> rqPath f = getName l) \<or>
         (\<exists>r\<in>set remoteFiles. req (getName r) \<noteq> Some ''DELETE'' \<and> rqPath f = getPath r)"
    if ok: "list_merge env remoteFiles localFiles err (Some req) w = (Ok files, w')" for req
  proof -
    let ?S = "survivingRemote req remoteFiles"
    from list_merge_shape(1)[OF ok] obtain kept where
      k: "subseq kept localFiles" "length ?S \<le> length files"
         "drop (length ?S) files = map (localOnly env) kept"
      by blast
    from assms(2) obtain i where i: "i < length files" "files ! i = f"
      by (auto simp: in_set_conv_nth)
    show ?thesis
    proof (cases "i < length ?S")
      case True
      with list_merge_shape(2)[OF ok] have
        "files ! i = RQFromRemote (getPath (?S ! i)) (?S ! i) \<or>
           (\<exists>l\<in>set localFiles. \<not> isTempFileName env (getName l) \<and>
              getName l = getName (?S ! i) \<and>
              files ! i = RQFromLocalAndRemote (getPath l) l (?S ! i))"
        by blast
      moreover from True have "?S ! i \<in> set ?S" by simp
      then have "?S ! i \<in> set remoteFiles" "req (getName (?S ! i)) \<noteq> Some ''DELETE''"
        by (simp_all add: survivingRemote_def)
      ultimately show ?thesis using i by auto
    next
      case False
      with i k(2) have "f = drop (length ?S) files ! (i - length ?S)" by simp
      with k(3) False i have "f \<in> set (map (localOnly env) kept)"
        by (metis add_diff_inverse_nat in_set_conv_nth length_drop nat_add_left_cancel_less k(2) le_add_diff_inverse)
      then obtain l where "l \<in> set kept" "f = localOnly env l" by auto
      with k(1) have "l \<in> set localFiles" "rqPath f = getPath l \<or> rqPath f = getName l"
        by (auto simp: localOnly_def dest: subseq_set)
      then show ?thesis by blast
    qed
  qed
  show ?thesis
  proof (cases requests)
    case None
    with assms(1) have e: "remoteFiles = []"
      by (auto simp: list_merge_None split: if_splits)
    with assms(1) have "list_merge env remoteFiles localFiles err (Some Map.empty) w = (Ok files, w')"
      by (simp add: list_merge_empty_remote)
    from main[OF this] e show ?thesis by simp
  next
    case (Some req)
    with assms(1) main[of req] show ?thesis by auto
  qed
qed

lemma asyncMap_createFileInstance:
  assumes "asyncMap (\<lambda>name. createFileInstance env t (g name)) names w = (Ok hs, w')"
  shows "getFs t w' = getFs t w \<and> queue w' = queue w \<and> localFs w' = localFs w \<and>
         (\<forall>h\<in>set hs. fs_stat (getFs t w) (getPath h) \<noteq> None \<and> getName h = getPathName (getPath h))"
  using assms
proof (induction names arbitrary: w hs)
  case Nil
  then show ?case by simp
next
  case (Cons n names)
  from Cons.prems obtain h w1 hs' where
    a: "createFileInstance env t (g n) w = (Ok h, w1)" and
    b: "asyncMap (\<lambda>name. createFileInstance env t (g name)) names w1 = (Ok hs', w')" and
    c: "hs = h # hs'"
    by (auto split: prod.splits outcome.splits)
  from createFileInstance_Ok[OF a] have
    w1: "w1 = traced (FSFileCreateInstance t (g n)) w" and
    h: "fs_stat (getFs t w) (getPath h) \<noteq> None" "getName h = getPathName (getPath h)"
    by auto
  from Cons.IH[OF b] w1 h c show ?case by simp
qed

lemma FSTree_list_Ok:
  assumes "FSTree_list env t pat w = (Ok ls, w')"
  shows "getFs t w' = getFs t w \<and> queue w' = queue w \<and> localFs w' = localFs w \<and>
         (\<forall>l\<in>set ls. fs_stat (getFs t w) (getPath l) \<noteq> None \<and> getName l = getPathName (getPath l))"
proof -
  from assms obtain names w1 where
    a: "invoke env (FsReaddir t (orElse (getParentPath pat) []))
              (\<lambda>w. case fs_stat (getFs t w) (orElse (getParentPath pat) []) of
                      Some True \<Rightarrow> (Ok (map fst (getFs t w (orElse (getParentPath pat) []))), w)
                    | _ \<Rightarrow> (Err NotFound, w)) w = (Ok names, w1)" and
    b: "asyncMap (\<lambda>name. createFileInstance env t (pathJoin (orElse (getParentPath pat) []) name))
          (if getPathName pat = ''*'' then names
           else filter (\<lambda>fileName. unicodeEquals env fileName (getPathName pat)) names) w1 = (Ok ls, w')"
    unfolding FSTree_list_def Let_def by (rule andThen_OkE)
  from a have w1: "w1 = traced (FsReaddir t (orElse (getParentPath pat) [])) w"
    by (auto simp: invoke_Ok split: option.splits bool.splits)
  from asyncMap_createFileInstance[OF b] w1 show ?thesis by simp
qed

lemma DAMTree_list_Ok:
  assumes "DAMTree_list env pat w = (Ok rs, w')"
  shows "w' = traced (DamList pat) w \<and> (\<forall>r\<in>set rs. getName r = getPathName (getPath r))"
  using assms
  by (auto simp: DAMTree_list_def Let_def invoke_Ok split: option.splits bool.splits)

lemma fs_stat_remove: "p \<noteq> [] \<Longrightarrow> fs_stat (fs_remove fs p) p = None"
  by (auto simp: fs_stat_def fs_remove_def map_of_eq_None_iff)

lemma requestsOf_append:
  "requestsOf (q @ [e]) (dirOf (path e)) (getPathName (path e)) = Some (method e)"
  by (simp add: requestsOf_def)


subsection \<open>What \<^verbatim>\<open>list\<close> deletes\<close>

text \<open>The handle of a local file is asked to delete the file only after \<^verbatim>\<open>canDelete\<close> has
  answered true for its path: if this holds of the calls made so far, it holds after \<^verbatim>\<open>list\<close>.\<close>

lemma processLocal_step_deletes:
  assumes "processLocal env remoteFiles lk rl (l # ls) rqFiles w = (r, w')"
      and "\<forall>p. FSFileDelete p \<in> set (trace w) \<longrightarrow> canDeleteOf env p"
  shows "(\<forall>p. FSFileDelete p \<in> set (trace w') \<longrightarrow> canDeleteOf env p) \<or>
         (\<exists>rq' w''. processLocal env remoteFiles lk rl ls rq' w'' = (r, w') \<and>
                     (\<forall>p. FSFileDelete p \<in> set (trace w'') \<longrightarrow> canDeleteOf env p))"
  using assms
  apply (simp add: andThen_def invoke_def RQFile_createInstanceFromLocal_def
      RQFile_createInstanceFromLocalAndRemote_def FSTree_exists_def RQFile_canDelete_def
      FSFile_delete_def RQFile_deleteWorkFiles_def getFs_def
      split: if_splits option.splits)
  apply (fastforce simp: traced_def)+
  done

lemma processLocal_deletes_deletable:
  assumes "processLocal env remoteFiles lk rl ls rqFiles w = (r, w')"
      and "\<forall>p. FSFileDelete p \<in> set (trace w) \<longrightarrow> canDeleteOf env p"
  shows "\<forall>p. FSFileDelete p \<in> set (trace w') \<longrightarrow> canDeleteOf env p"
  using assms
proof (induction ls arbitrary: rqFiles w)
  case Nil
  then show ?case by simp
next
  case (Cons l ls)
  from processLocal_step_deletes[OF Cons.prems] Cons.IH show ?case by blast
qed


lemma asyncMap_deletes_deletable:
  assumes "asyncMap (\<lambda>name. createFileInstance env t (g name)) names w = (r, w')"
      and "\<forall>p. FSFileDelete p \<in> set (trace w) \<longrightarrow> canDeleteOf env p"
  shows "\<forall>p. FSFileDelete p \<in> set (trace w') \<longrightarrow> canDeleteOf env p"
  using assms
proof (induction names arbitrary: w r w')
  case Nil
  then show ?case by simp
next
  case (Cons n names)
  obtain r1 w1 where a: "createFileInstance env t (g n) w = (r1, w1)"
    by (cases "createFileInstance env t (g n) w")
  then have t1: "trace w1 = trace w @ [FSFileCreateInstance t (g n)]"
    by (auto simp: createFileInstance_def invoke_def split: option.splits)
  with Cons.prems(2) have i1: "\<forall>p. FSFileDelete p \<in> set (trace w1) \<longrightarrow> canDeleteOf env p"
    by simp
  show ?case
  proof (cases r1)
    case (Ok h)
    obtain r2 w2 where b: "asyncMap (\<lambda>name. createFileInstance env t (g name)) names w1 = (r2, w2)"
      by (cases "asyncMap (\<lambda>name. createFileInstance env t (g name)) names w1")
    from Cons.prems(1) a Ok b have "w' = w2" by (simp split: outcome.splits)
    with Cons.IH[OF b i1] show ?thesis by simp
  next
    case (Err e)
    with Cons.prems(1) a have "w' = w1" by simp
    with i1 show ?thesis by simp
  next
    case Throws
    with Cons.prems(1) a have "w' = w1" by simp
    with i1 show ?thesis by simp
  qed
qed

lemma RQTree_list_deletes_deletable:
  assumes "RQTree_list env pattern w = (r, w')"
      and "\<forall>p. FSFileDelete p \<in> set (trace w) \<longrightarrow> canDeleteOf env p"
  shows "\<forall>p. FSFileDelete p \<in> set (trace w') \<longrightarrow> canDeleteOf env p"
proof -
  let ?I = "\<lambda>v. \<forall>p. FSFileDelete p \<in> set (trace v) \<longrightarrow> canDeleteOf env p"
  let ?d = "orElse (getParentPath pattern) []"
  obtain r1 w1 where a1: "DAMTree_list env pattern w = (r1, w1)"
    by (cases "DAMTree_list env pattern w")
  then have i1: "?I w1" using assms(2)
    by (auto simp: DAMTree_list_def Let_def invoke_def split: option.splits bool.splits)
  show ?thesis
  proof (cases r1)
    case (Ok rs)
    obtain r2 w2 where a2: "FSTree_exists env Local ?d w1 = (r2, w2)"
      by (cases "FSTree_exists env Local ?d w1")
    then have i2: "?I w2" using i1
      by (auto simp: FSTree_exists_def invoke_def split: option.splits if_splits)
    show ?thesis
    proof (cases r2)
      case ok2: (Ok b)
      show ?thesis
      proof (cases b)
        case True
        obtain r3 w3 where a3: "FSTree_list env Local pattern w2 = (r3, w3)"
          by (cases "FSTree_list env Local pattern w2")
        have i3: "?I w3"
        proof -
          obtain r0 w0 where a0: "invoke env (FsReaddir Local ?d)
              (\<lambda>w. case fs_stat (getFs Local w) ?d of
                      Some True \<Rightarrow> (Ok (map fst (getFs Local w ?d)), w)
                    | _ \<Rightarrow> (Err NotFound, w)) w2 = (r0, w0)"
            by (cases "invoke env (FsReaddir Local ?d)
              (\<lambda>w. case fs_stat (getFs Local w) ?d of
                      Some True \<Rightarrow> (Ok (map fst (getFs Local w ?d)), w)
                    | _ \<Rightarrow> (Err NotFound, w)) w2")
          then have i0: "?I w0" using i2
            by (auto simp: invoke_def split: option.splits bool.splits)
          show ?thesis
          proof (cases r0)
            case (Ok names)
            with a3 a0 have "asyncMap (\<lambda>name. createFileInstance env Local (pathJoin ?d name))
                (if getPathName pattern = ''*'' then names
                 else filter (\<lambda>fileName. unicodeEquals env fileName (getPathName pattern)) names) w0
                = (r3, w3)"
              by (simp add: FSTree_list_def Let_def andThen_def)
            from asyncMap_deletes_deletable[OF this i0] show ?thesis .
          next
            case (Err e)
            with a3 a0 have "w3 = w0" by (simp add: FSTree_list_def Let_def andThen_def)
            with i0 show ?thesis by simp
          next
            case Throws
            with a3 a0 have "w3 = w0" by (simp add: FSTree_list_def Let_def andThen_def)
            with i0 show ?thesis by simp
          qed
        qed
        show ?thesis
        proof (cases r3)
          case ok3: (Ok ls)
          obtain err requests w4 where a4: "RequestQueue_getRequests env ?d w3 = ((err, requests), w4)"
            by (cases "RequestQueue_getRequests env ?d w3") auto
          then have i4: "?I w4" using i3
            by (auto simp: RequestQueue_getRequests_def split: option.splits)
          from assms(1) a1 Ok a2 ok2 True a3 ok3 a4 have
            m: "list_merge env rs ls err requests w4 = (r, w')"
            by (simp add: RQTree_list_def Let_def andThen_def)
          show ?thesis
          proof (cases "remotePass requests rs 0 ([], Map.empty, Map.empty)")
            case None
            with m have "w' = w4" by (simp add: list_merge_def)
            with i4 show ?thesis by simp
          next
            case (Some st)
            obtain rq lk rl where "st = (rq, lk, rl)" by (cases st)
            with Some m have "processLocal env rs lk rl ls rq w4 = (r, w')"
              by (simp add: list_merge_def)
            from processLocal_deletes_deletable[OF this i4] show ?thesis .
          qed
        next
          case (Err e)
          with assms(1) a1 Ok a2 ok2 True a3 have "w' = w3"
            by (simp add: RQTree_list_def Let_def andThen_def)
          with i3 show ?thesis by simp
        next
          case Throws
          with assms(1) a1 Ok a2 ok2 True a3 have "w' = w3"
            by (simp add: RQTree_list_def Let_def andThen_def)
          with i3 show ?thesis by simp
        qed
      next
        case False
        with assms(1) a1 Ok a2 ok2 have "w' = w2"
          by (simp add: RQTree_list_def Let_def andThen_def)
        with i2 show ?thesis by simp
      qed
    next
      case (Err e)
      with assms(1) a1 Ok a2 have "w' = w2"
        by (simp add: RQTree_list_def Let_def andThen_def)
      with i2 show ?thesis by simp
    next
      case Throws
      with assms(1) a1 Ok a2 have "w' = w2"
        by (simp add: RQTree_list_def Let_def andThen_def)
      with i2 show ?thesis by simp
    qed
  next
    case (Err e)
    with assms(1) a1 have "w' = w1" by (simp add: RQTree_list_def andThen_def)
    with i1 show ?thesis by simp
  next
    case Throws
    with assms(1) a1 have "w' = w1" by (simp add: RQTree_list_def andThen_def)
    with i1 show ?thesis by simp
  qed
qed

subsection \<open>\<^verbatim>\<open>delete\<close> and the listing that follows\<close>

lemma queueEntry_delete: "queueEntry env ''DELETE'' n None = deleteEntry env n"
  by (simp add: queueEntry_def deleteEntry_def)

lemma queueEntry_move:
  "newName \<noteq> [] \<Longrightarrow> queueEntry env ''MOVE'' oldName (Some newName) = moveEntry env oldName newName"
  by (simp add: queueEntry_def moveEntry_def)

lemma queueData_eq:
  "queueData env name meth newName w =
     (if queueSkipped env name newName then w
      else (case faults env (QueueRequest (queueEntry env meth name newName)) of
              None \<Rightarrow>
                (traced (QueueRequest (queueEntry env meth name newName)) w)
                  \<lparr>queue := queue w @ [queueEntry env meth name newName]\<rparr>
            | Some e \<Rightarrow>
                (traced (QueueRequest (queueEntry env meth name newName)) w)
                  \<lparr>lateLog := lateLog w @ [LogError ''unable to queue request'']\<rparr>))"
  by (simp add: queueData_def queueEntry_def queueSkipped_def RequestQueue_queueRequest_def
      invoke_def Let_def split: option.splits)

lemma queueData_fs [simp]:
  "localFs (queueData env name meth newName w) = localFs w"
  "workFs (queueData env name meth newName w) = workFs w"
  by (simp_all add: queueData_eq split: option.splits)

lemma queueData_delete_queue:
  assumes "\<not> isTempFileName env name" "faults env (QueueRequest (deleteEntry env name)) = None"
  shows "queue (queueData env name ''DELETE'' None w) = queue w @ [deleteEntry env name]"
  using assms by (simp add: queueData_eq queueSkipped_def queueEntry_delete)


lemma RQTree_delete_Ok:
  assumes ok: "RQTree_delete env n w = (Ok u, w1)"
      and inL: "fs_stat (localFs w) n \<noteq> None"
  shows "\<exists>w0 cs.
           trace w0 = trace w @ [LogInfo ''[%s] tree.delete %s'' n, FsStat Local n, FsUnlink Local n,
                                 InvalidateContentCache (getParentPath n)] \<and>
           queue w0 = queue w \<and> lateLog w0 = lateLog w \<and> localFs w0 = fs_remove (localFs w) n \<and>
           trace w1 = trace (queueData env n ''DELETE'' None w0) @ DeleteWorkFiles n # cs \<and>
           (\<forall>c\<in>set cs. \<exists>m. c = LogError m) \<and>
           queue w1 = queue (queueData env n ''DELETE'' None w0) \<and>
           lateLog w1 = lateLog (queueData env n ''DELETE'' None w0) \<and>
           localFs w1 = localFs w0"
    and "n \<noteq> []"
proof -
  let ?w0 = "traced (LogInfo ''[%s] tree.delete %s'' n) w"
  from ok obtain b wa where
    a1: "FSTree_exists env Local n ?w0 = (Ok b, wa)" and
    r1: "(if b then
            andThen (FSTree_delete env Local n)
              (\<lambda>_ w.
                 case RQFile_deleteWorkFiles env n
                        (queueData env n ''DELETE'' None
                           (invalidateContentCache (getParentPath n) w)) of
                   (Err err, w') \<Rightarrow>
                     (Ok (),
                      traced (LogError ''unexpected error while trying to clean up rq file after deletion'') w')
                 | (Ok u, w') \<Rightarrow> (Ok (), w')
                 | (Throws, w') \<Rightarrow> (Throws, w'))
          else DAMTree_delete env n) wa = (Ok u, w1)"
    unfolding RQTree_delete_def by (rule andThen_OkE)
  from FSTree_exists_Ok[OF a1] inL have b: "b" and wa: "wa = traced (FsStat Local n) ?w0"
    by (simp_all add: getFs_def)
  from r1 b have "andThen (FSTree_delete env Local n)
              (\<lambda>_ w.
                 case RQFile_deleteWorkFiles env n
                        (queueData env n ''DELETE'' None
                           (invalidateContentCache (getParentPath n) w)) of
                   (Err err, w') \<Rightarrow>
                     (Ok (),
                      traced (LogError ''unexpected error while trying to clean up rq file after deletion'') w')
                 | (Ok u, w') \<Rightarrow> (Ok (), w')
                 | (Throws, w') \<Rightarrow> (Throws, w')) wa = (Ok u, w1)"
    by (simp only: if_True)
  then obtain u2 wb where
    a2: "FSTree_delete env Local n wa = (Ok u2, wb)" and
    r2: "(case RQFile_deleteWorkFiles env n
                        (queueData env n ''DELETE'' None
                           (invalidateContentCache (getParentPath n) wb)) of
                   (Err err, w') \<Rightarrow>
                     (Ok (),
                      traced (LogError ''unexpected error while trying to clean up rq file after deletion'') w')
                 | (Ok u, w') \<Rightarrow> (Ok (), w')
                 | (Throws, w') \<Rightarrow> (Throws, w')) = (Ok u, w1)"
    by (rule andThen_OkE)
  from a2 wa have wb: "wb = setFs Local (fs_remove (localFs w) n) (traced (FsUnlink Local n) wa)"
    and isfile: "fs_stat (localFs w) n = Some False"
    by (auto simp: FSTree_delete_def invoke_Ok getFs_def split: option.splits bool.splits)
  from isfile show "n \<noteq> []" by (auto simp: fs_stat_def)
  let ?wi = "invalidateContentCache (getParentPath n) wb"
  let ?wq = "queueData env n ''DELETE'' None ?wi"
  have wi: "trace ?wi = trace w @ [LogInfo ''[%s] tree.delete %s'' n, FsStat Local n, FsUnlink Local n,
                                 InvalidateContentCache (getParentPath n)]"
    "queue ?wi = queue w" "lateLog ?wi = lateLog w" "localFs ?wi = fs_remove (localFs w) n"
    unfolding wb wa invalidateContentCache_def by simp_all
  from r2 have "\<exists>cs. trace w1 = trace ?wq @ DeleteWorkFiles n # cs \<and> (\<forall>c\<in>set cs. \<exists>m. c = LogError m)"
    by (auto simp: RQFile_deleteWorkFiles_def invoke_def split: option.splits)
  then obtain cs where cs: "trace w1 = trace ?wq @ DeleteWorkFiles n # cs" "\<forall>c\<in>set cs. \<exists>m. c = LogError m"
    by blast
  from r2 have w1: "localFs w1 = localFs ?wq" "queue w1 = queue ?wq" "lateLog w1 = lateLog ?wq"
    by (auto simp: RQFile_deleteWorkFiles_def invoke_def split: option.splits)
  from wi cs w1 show "\<exists>w0 cs.
           trace w0 = trace w @ [LogInfo ''[%s] tree.delete %s'' n, FsStat Local n, FsUnlink Local n,
                                 InvalidateContentCache (getParentPath n)] \<and>
           queue w0 = queue w \<and> lateLog w0 = lateLog w \<and> localFs w0 = fs_remove (localFs w) n \<and>
           trace w1 = trace (queueData env n ''DELETE'' None w0) @ DeleteWorkFiles n # cs \<and>
           (\<forall>c\<in>set cs. \<exists>m. c = LogError m) \<and>
           queue w1 = queue (queueData env n ''DELETE'' None w0) \<and>
           lateLog w1 = lateLog (queueData env n ''DELETE'' None w0) \<and>
           localFs w1 = localFs w0"
    by (intro exI[of _ ?wi] exI[of _ cs]) simp
qed

lemma RQTree_delete_succeeds:
  assumes "fs_stat (localFs w) n = Some False" "\<not> fs_enotdir (localFs w) n"
      and "faults env (FsStat Local n) = None" "faults env (FsUnlink Local n) = None"
  shows "fst (RQTree_delete env n w) = Ok ()"
proof -
  have tail: "fst (case RQFile_deleteWorkFiles env n v of
                   (Err err, w') \<Rightarrow> (Ok (), traced (LogError m) w')
                 | (Ok u, w') \<Rightarrow> (Ok (), w')
                 | (Throws, w') \<Rightarrow> (Throws, w')) = Ok ()" for v m
    by (simp add: RQFile_deleteWorkFiles_def invoke_def split: option.splits)
  from assms show ?thesis
    by (simp add: RQTree_delete_def andThen_def invoke_def FSTree_exists_def FSTree_delete_def
        getFs_def tail)
qed

lemma RQTree_delete_post:
  assumes ok: "RQTree_delete env n w = (Ok u, w1)"
      and inL: "fs_stat (localFs w) n \<noteq> None"
  shows "fs_stat (localFs w1) n = None"
    and "\<not> isTempFileName env n \<Longrightarrow> faults env (QueueRequest (deleteEntry env n)) = None \<Longrightarrow>
         queue w1 = queue w @ [deleteEntry env n] \<and>
         requestsOf (queue w1) (dirOf n) (getPathName n) = Some ''DELETE''"
proof -
  from RQTree_delete_Ok[OF ok inL] obtain w0 where
    w0: "queue w0 = queue w" "localFs w0 = fs_remove (localFs w) n"
        "queue w1 = queue (queueData env n ''DELETE'' None w0)" "localFs w1 = localFs w0"
    and ne: "n \<noteq> []"
    by blast
  from w0 ne show "fs_stat (localFs w1) n = None" by (simp add: fs_stat_remove)
  assume "\<not> isTempFileName env n" "faults env (QueueRequest (deleteEntry env n)) = None"
  from queueData_delete_queue[OF this] w0 have q: "queue w1 = queue w @ [deleteEntry env n]"
    by simp
  moreover have "path (deleteEntry env n) = n" "method (deleteEntry env n) = ''DELETE''"
    by (simp_all add: deleteEntry_def)
  ultimately show "queue w1 = queue w @ [deleteEntry env n] \<and>
         requestsOf (queue w1) (dirOf n) (getPathName n) = Some ''DELETE''"
    using requestsOf_append[of "queue w" "deleteEntry env n"]
    by simp
qed

lemma RQTree_delete_queue_error:
  assumes ok: "RQTree_delete env n w = (Ok u, w1)"
      and inL: "fs_stat (localFs w) n \<noteq> None"
      and nt: "\<not> isTempFileName env n"
      and qf: "faults env (QueueRequest (deleteEntry env n)) = Some e"
  shows "\<exists>cs. trace w1 = trace w @ [LogInfo ''[%s] tree.delete %s'' n, FsStat Local n, FsUnlink Local n,
                  InvalidateContentCache (getParentPath n), QueueRequest (deleteEntry env n),
                  DeleteWorkFiles n] @ cs \<and>
              (\<forall>c\<in>set cs. \<exists>m. c = LogError m)"
    and "lateLog w1 = lateLog w @ [LogError ''unable to queue request'']"
    and "queue w1 = queue w"
    and "fs_stat (localFs w1) n = None"
proof -
  from RQTree_delete_Ok[OF ok inL] obtain w0 cs where
    w0: "trace w0 = trace w @ [LogInfo ''[%s] tree.delete %s'' n, FsStat Local n, FsUnlink Local n,
                                 InvalidateContentCache (getParentPath n)]"
        "queue w0 = queue w" "lateLog w0 = lateLog w"
        "trace w1 = trace (queueData env n ''DELETE'' None w0) @ DeleteWorkFiles n # cs"
        "\<forall>c\<in>set cs. \<exists>m. c = LogError m"
        "queue w1 = queue (queueData env n ''DELETE'' None w0)"
        "lateLog w1 = lateLog (queueData env n ''DELETE'' None w0)"
    by blast
  have q: "queueData env n ''DELETE'' None w0 =
             (traced (QueueRequest (deleteEntry env n)) w0)
               \<lparr>lateLog := lateLog w0 @ [LogError ''unable to queue request'']\<rparr>"
    using nt qf by (simp add: queueData_eq queueSkipped_def queueEntry_delete)
  from w0 show "\<exists>cs. trace w1 = trace w @ [LogInfo ''[%s] tree.delete %s'' n, FsStat Local n, FsUnlink Local n,
                  InvalidateContentCache (getParentPath n), QueueRequest (deleteEntry env n),
                  DeleteWorkFiles n] @ cs \<and>
              (\<forall>c\<in>set cs. \<exists>m. c = LogError m)"
    unfolding q by (intro exI[of _ cs]) simp
  from w0 show "lateLog w1 = lateLog w @ [LogError ''unable to queue request'']"
    unfolding q by simp
  from w0 show "queue w1 = queue w" unfolding q by simp
  from RQTree_delete_post(1)[OF ok inL] show "fs_stat (localFs w1) n = None" .
qed

lemma RQTree_list_hidden:
  assumes gone: "fs_stat (localFs w2) n = None"
      and dir: "fs_stat (localFs w2) (dirOf n) \<noteq> None"
      and pend: "requestsOf (queue w2) (dirOf n) (getPathName n) = Some ''DELETE''"
      and pat: "dirOf pattern = dirOf n"
      and slash: "CHR ''/'' \<in> set n"
      and ok: "RQTree_list env pattern w2 = (Ok files, w3)"
      and f: "f \<in> set files"
  shows "rqPath f \<noteq> n"
proof -
  have d: "orElse (getParentPath pattern) [] = dirOf n" using pat by (simp add: dirOf_def)
  from ok obtain rs wa where
    a1: "DAMTree_list env pattern w2 = (Ok rs, wa)" and
    r1: "andThen (FSTree_exists env Local (dirOf n))
            (\<lambda>exists.
               if exists then
                 andThen (FSTree_list env Local pattern)
                   (\<lambda>localFiles w.
                      case RequestQueue_getRequests env (dirOf n) w of
                        ((err, requests), w') \<Rightarrow>
                          list_merge env rs localFiles err requests w')
               else (\<lambda>w. (Ok (map DAMFile rs), w))) wa = (Ok files, w3)"
    unfolding RQTree_list_def Let_def d by (rule andThen_OkE)
  from DAMTree_list_Ok[OF a1] have wa: "wa = traced (DamList pattern) w2"
    and rn: "\<forall>r\<in>set rs. getName r = getPathName (getPath r)"
    by auto
  from r1 obtain b wb where
    a2: "FSTree_exists env Local (dirOf n) wa = (Ok b, wb)" and
    r2: "(if b then
                 andThen (FSTree_list env Local pattern)
                   (\<lambda>localFiles w.
                      case RequestQueue_getRequests env (dirOf n) w of
                        ((err, requests), w') \<Rightarrow>
                          list_merge env rs localFiles err requests w')
               else (\<lambda>w. (Ok (map DAMFile rs), w))) wb = (Ok files, w3)"
    by (rule andThen_OkE)
  from FSTree_exists_Ok[OF a2] dir wa have b: "b" and wb: "wb = traced (FsStat Local (dirOf n)) wa"
    by (simp_all add: getFs_def)
  from r2 b have "andThen (FSTree_list env Local pattern)
                   (\<lambda>localFiles w.
                      case RequestQueue_getRequests env (dirOf n) w of
                        ((err, requests), w') \<Rightarrow>
                          list_merge env rs localFiles err requests w') wb = (Ok files, w3)"
    by (simp only: if_True)
  then obtain ls wc where
    a3: "FSTree_list env Local pattern wb = (Ok ls, wc)" and
    r3: "(case RequestQueue_getRequests env (dirOf n) wc of
                        ((err, requests), w') \<Rightarrow>
                          list_merge env rs ls err requests w') = (Ok files, w3)"
    by (rule andThen_OkE)
  from FSTree_list_Ok[OF a3] wb wa have
    qc: "queue wc = queue w2" and
    lp: "\<forall>l\<in>set ls. fs_stat (localFs w2) (getPath l) \<noteq> None \<and> getName l = getPathName (getPath l)"
    by (simp_all add: getFs_def)
  from r3 obtain err requests wd where
    m: "list_merge env rs ls err requests wd = (Ok files, w3)" and
    rq: "requests = None \<or> requests = Some (requestsOf (queue w2) (dirOf n))"
    using qc by (auto simp: RequestQueue_getRequests_def split: option.splits)
  from list_merge_files[OF m f] consider
      (loc) l where "l \<in> set ls" "rqPath f = getPath l \<or> rqPath f = getName l"
    | (rem) r req where "r \<in> set rs" "requests = Some req" "req (getName r) \<noteq> Some ''DELETE''"
        "rqPath f = getPath r"
    by blast
  then show ?thesis
  proof cases
    case loc
    from loc(1) lp have "fs_stat (localFs w2) (getPath l) \<noteq> None" "getName l = getPathName (getPath l)"
      by auto
    with gone slash loc(2) show ?thesis
      using getPathName_noslash[of "getPath l"] by auto
  next
    case rem
    from rem(2) rq have req: "req = requestsOf (queue w2) (dirOf n)" by simp
    show ?thesis
    proof
      assume "rqPath f = n"
      with rem(4) have "getPath r = n" by simp
      with rem(1) rn have "getName r = getPathName n" by auto
      with rem(3) req pend show False by simp
    qed
  qed
qed


subsection \<open>\<^verbatim>\<open>rename\<close>\<close>

lemma queueData_move:
  assumes "newName \<noteq> []"
  shows "localFs (queueData env oldName ''MOVE'' (Some newName) w) = localFs w \<and>
    (if isTempFileName env oldName \<and> isTempFileName env newName
     then queueData env oldName ''MOVE'' (Some newName) w = w
     else (\<exists>cs. trace (queueData env oldName ''MOVE'' (Some newName) w)
                   = trace w @ QueueRequest (moveEntry env oldName newName) # cs \<and>
                 (\<forall>c\<in>set cs. \<not> isRemoteCall c \<and> (\<forall>e. c \<noteq> QueueRequest e))) \<and>
          (queue (queueData env oldName ''MOVE'' (Some newName) w) = queue w @ [moveEntry env oldName newName]
           \<or> faults env (QueueRequest (moveEntry env oldName newName)) \<noteq> None \<and>
             queue (queueData env oldName ''MOVE'' (Some newName) w) = queue w))"
  using assms
  by (auto simp: queueData_def moveEntry_def RequestQueue_queueRequest_def invoke_def traced_def
      split: option.splits)

lemma queueRename_Ok:
  assumes "queueRename env f oldName newName w = (Ok u, w')" "newName \<noteq> [] \<or> isDirectory f"
  shows "localFs w' = localFs w \<and>
    (if isDirectory f
     then trace w' = trace w @ [DamRename oldName newName, UpdatePath oldName newName] \<and>
          queue w' = map (\<lambda>e. e\<lparr>path := rebase oldName newName (path e)\<rparr>) (queue w)
     else if isTempFileName env oldName \<and> isTempFileName env newName
     then trace w' = trace w \<and> queue w' = queue w
     else (\<exists>cs. trace w' = trace w @ QueueRequest (moveEntry env oldName newName) # cs \<and>
                 (\<forall>c\<in>set cs. \<not> isRemoteCall c \<and> (\<forall>e. c \<noteq> QueueRequest e))) \<and>
          (queue w' = queue w @ [moveEntry env oldName newName]
           \<or> faults env (QueueRequest (moveEntry env oldName newName)) \<noteq> None \<and> queue w' = queue w))"
proof (cases "isDirectory f")
  case True
  with assms(1) show ?thesis
    by (auto simp: queueRename_def andThen_Ok DAMTree_rename_def RequestQueue_updatePath_def invoke_Ok
        split: option.splits)
next
  case False
  with assms(2) have n: "newName \<noteq> []" by simp
  from False assms(1) have w': "w' = queueData env oldName ''MOVE'' (Some newName) w"
    by (simp add: queueRename_def)
  from queueData_move[OF n, of env oldName w] False show ?thesis
    unfolding w' by (simp split: if_splits)
qed


lemma renameCreated_Ok:
  assumes "renameCreated env f x oldName newName w = (Ok u, w')"
  shows "\<exists>cs w1. queueRename env f oldName newName w1 = (Ok u, w') \<and> trace w1 = trace w @ cs \<and>
           (\<forall>c\<in>set cs. \<not> isRemoteCall c \<and> (\<forall>e. c \<noteq> QueueRequest e)) \<and>
           queue w1 = queue w \<and> localFs w1 = localFs w \<and> lateLog w1 = lateLog w"
proof (cases x)
  case True
  with assms have "andThen (FSTree_rename env Work oldName newName)
          (\<lambda>_. queueRename env f oldName newName) w = (Ok u, w')"
    by (simp add: renameCreated_def)
  then obtain u1 w1 where
    a: "FSTree_rename env Work oldName newName w = (Ok u1, w1)" and
    b: "queueRename env f oldName newName w1 = (Ok u, w')"
    by (rule andThen_OkE)
  from FSTree_rename_Ok[OF a] obtain fs where "w1 = setFs Work fs (traced (FsRename Work oldName newName) w)"
    by blast
  then have "trace w1 = trace w @ [FsRename Work oldName newName]" "queue w1 = queue w"
    "localFs w1 = localFs w" "lateLog w1 = lateLog w"
    by simp_all
  with b show ?thesis
    by (intro exI[of _ "[FsRename Work oldName newName]"] exI[of _ w1]) simp
next
  case False
  with assms have "queueRename env f oldName newName w = (Ok u, w')"
    by (simp add: renameCreated_def)
  then show ?thesis by (intro exI[of _ "[]"] exI) simp
qed

lemma RQTree_rename_steps:
  assumes ok: "RQTree_rename env oldName newName w = (Ok u, w')"
      and inL: "fs_stat (localFs w) oldName \<noteq> None"
  shows "\<exists>f w7 pre. queueRename env f oldName newName w7 = (Ok u, w') \<and>
           trace w7 = trace w @ pre \<and>
           (\<forall>c\<in>set pre. \<not> isRemoteCall c \<and> (\<forall>e. c \<noteq> QueueRequest e)) \<and>
           queue w7 = queue w \<and> lateLog w7 = lateLog w \<and>
           fs_stat (localFs w7) newName = Some (isDirectory f)"
proof -
  from ok obtain b w1 where
    a1: "FSTree_exists env Local oldName w = (Ok b, w1)" and
    r1: "(if b then andThen (FSTree_rename env Local oldName newName)
              (\<lambda>_ w.
                 andThen (createFileInstance env Local newName)
                   (\<lambda>file. andThen (FSTree_exists env Work oldName)
                      (\<lambda>exists. andThen (FSTree_exists env Work (getCreateFileName oldName))
                         (\<lambda>createdExists.
                            if createdExists then
                              andThen
                                (FSTree_rename env Work (getCreateFileName oldName)
                                   (getCreateFileName newName))
                                (\<lambda>_. renameCreated env file exists oldName newName)
                            else renameCreated env file exists oldName newName)))
                   (invalidateContentCache (getParentPath newName)
                      (invalidateContentCache (getParentPath oldName) w)))
          else DAMTree_rename env oldName newName) w1 = (Ok u, w')"
    unfolding RQTree_rename_def by (rule andThen_OkE)
  from FSTree_exists_Ok[OF a1] inL have b: "b" and w1: "w1 = traced (FsStat Local oldName) w"
    by (simp_all add: getFs_def)
  from r1 b have "andThen (FSTree_rename env Local oldName newName)
              (\<lambda>_ w.
                 andThen (createFileInstance env Local newName)
                   (\<lambda>file. andThen (FSTree_exists env Work oldName)
                      (\<lambda>exists. andThen (FSTree_exists env Work (getCreateFileName oldName))
                         (\<lambda>createdExists.
                            if createdExists then
                              andThen
                                (FSTree_rename env Work (getCreateFileName oldName)
                                   (getCreateFileName newName))
                                (\<lambda>_. renameCreated env file exists oldName newName)
                            else renameCreated env file exists oldName newName)))
                   (invalidateContentCache (getParentPath newName)
                      (invalidateContentCache (getParentPath oldName) w))) w1 = (Ok u, w')"
    by (simp only: if_True)
  then obtain u2 w2 where
    a2: "FSTree_rename env Local oldName newName w1 = (Ok u2, w2)" and
    r2: "andThen (createFileInstance env Local newName)
                   (\<lambda>file. andThen (FSTree_exists env Work oldName)
                      (\<lambda>exists. andThen (FSTree_exists env Work (getCreateFileName oldName))
                         (\<lambda>createdExists.
                            if createdExists then
                              andThen
                                (FSTree_rename env Work (getCreateFileName oldName)
                                   (getCreateFileName newName))
                                (\<lambda>_. renameCreated env file exists oldName newName)
                            else renameCreated env file exists oldName newName)))
                   (invalidateContentCache (getParentPath newName)
                      (invalidateContentCache (getParentPath oldName) w2)) = (Ok u, w')"
    by (rule andThen_OkE)
  from r2 obtain f w3 where
    a3: "createFileInstance env Local newName
           (invalidateContentCache (getParentPath newName)
              (invalidateContentCache (getParentPath oldName) w2)) = (Ok f, w3)" and
    r3: "andThen (FSTree_exists env Work oldName)
                      (\<lambda>exists. andThen (FSTree_exists env Work (getCreateFileName oldName))
                         (\<lambda>createdExists.
                            if createdExists then
                              andThen
                                (FSTree_rename env Work (getCreateFileName oldName)
                                   (getCreateFileName newName))
                                (\<lambda>_. renameCreated env f exists oldName newName)
                            else renameCreated env f exists oldName newName)) w3 = (Ok u, w')"
    by (rule andThen_OkE)
  from r3 obtain x w4 where
    a4: "FSTree_exists env Work oldName w3 = (Ok x, w4)" and
    r4: "andThen (FSTree_exists env Work (getCreateFileName oldName))
                         (\<lambda>createdExists.
                            if createdExists then
                              andThen
                                (FSTree_rename env Work (getCreateFileName oldName)
                                   (getCreateFileName newName))
                                (\<lambda>_. renameCreated env f x oldName newName)
                            else renameCreated env f x oldName newName) w4 = (Ok u, w')"
    by (rule andThen_OkE)
  from r4 obtain c w5 where
    a5: "FSTree_exists env Work (getCreateFileName oldName) w4 = (Ok c, w5)" and
    r5: "(if c then andThen (FSTree_rename env Work (getCreateFileName oldName)
                                   (getCreateFileName newName))
                                (\<lambda>_. renameCreated env f x oldName newName)
          else renameCreated env f x oldName newName) w5 = (Ok u, w')"
    by (rule andThen_OkE)
  from FSTree_rename_Ok[OF a2] obtain fs2 where
    w2: "w2 = setFs Local fs2 (traced (FsRename Local oldName newName) w1)" by blast
  from createFileInstance_Ok[OF a3] have
    w3: "w3 = traced (FSFileCreateInstance Local newName)
           (invalidateContentCache (getParentPath newName)
              (invalidateContentCache (getParentPath oldName) w2))" and
    k: "fs_stat (localFs w2) newName = Some (isDirectory f)"
    by (simp_all add: invalidateContentCache_def getFs_def)
  from FSTree_exists_Ok[OF a4] have w4: "w4 = traced (FsStat Work oldName) w3" by simp
  from FSTree_exists_Ok[OF a5] have w5: "w5 = traced (FsStat Work (getCreateFileName oldName)) w4"
    by simp
  have t5: "trace w5 = trace w @ [FsStat Local oldName, FsRename Local oldName newName,
              InvalidateContentCache (getParentPath oldName), InvalidateContentCache (getParentPath newName),
              FSFileCreateInstance Local newName, FsStat Work oldName,
              FsStat Work (getCreateFileName oldName)]"
    and q5: "queue w5 = queue w" and l5: "localFs w5 = localFs w2" and g5: "lateLog w5 = lateLog w"
    unfolding w5 w4 w3 w2 w1 invalidateContentCache_def by simp_all
  have "\<exists>cs w6. renameCreated env f x oldName newName w6 = (Ok u, w') \<and> trace w6 = trace w5 @ cs \<and>
           (\<forall>c\<in>set cs. \<not> isRemoteCall c \<and> (\<forall>e. c \<noteq> QueueRequest e)) \<and>
           queue w6 = queue w5 \<and> localFs w6 = localFs w5 \<and> lateLog w6 = lateLog w5"
  proof (cases c)
    case True
    with r5 have "andThen (FSTree_rename env Work (getCreateFileName oldName)
                                   (getCreateFileName newName))
                                (\<lambda>_. renameCreated env f x oldName newName) w5 = (Ok u, w')"
      by (simp only: if_True)
    then obtain u6 w6 where
      a: "FSTree_rename env Work (getCreateFileName oldName) (getCreateFileName newName) w5 = (Ok u6, w6)" and
      b: "renameCreated env f x oldName newName w6 = (Ok u, w')"
      by (rule andThen_OkE)
    from FSTree_rename_Ok[OF a] obtain fs where
      "w6 = setFs Work fs (traced (FsRename Work (getCreateFileName oldName) (getCreateFileName newName)) w5)"
      by blast
    then have "trace w6 = trace w5 @ [FsRename Work (getCreateFileName oldName) (getCreateFileName newName)]"
      "queue w6 = queue w5" "localFs w6 = localFs w5" "lateLog w6 = lateLog w5"
      by simp_all
    with b show ?thesis
      by (intro exI[of _ "[FsRename Work (getCreateFileName oldName) (getCreateFileName newName)]"] exI[of _ w6]) simp
  next
    case False
    with r5 have "renameCreated env f x oldName newName w5 = (Ok u, w')" by simp
    then show ?thesis by (intro exI[of _ "[]"] exI) simp
  qed
  then obtain cs6 w6 where
    r6: "renameCreated env f x oldName newName w6 = (Ok u, w')" and
    t6: "trace w6 = trace w5 @ cs6" and
    p6: "\<forall>c\<in>set cs6. \<not> isRemoteCall c \<and> (\<forall>e. c \<noteq> QueueRequest e)" and
    q6: "queue w6 = queue w5" and l6: "localFs w6 = localFs w5" and g6: "lateLog w6 = lateLog w5"
    by blast
  from renameCreated_Ok[OF r6] obtain cs7 w7 where
    r7: "queueRename env f oldName newName w7 = (Ok u, w')" and
    t7: "trace w7 = trace w6 @ cs7" and
    p7: "\<forall>c\<in>set cs7. \<not> isRemoteCall c \<and> (\<forall>e. c \<noteq> QueueRequest e)" and
    q7: "queue w7 = queue w6" and l7: "localFs w7 = localFs w6" and g7: "lateLog w7 = lateLog w6"
    by blast
  let ?pre = "[FsStat Local oldName, FsRename Local oldName newName,
              InvalidateContentCache (getParentPath oldName), InvalidateContentCache (getParentPath newName),
              FSFileCreateInstance Local newName, FsStat Work oldName,
              FsStat Work (getCreateFileName oldName)] @ cs6 @ cs7"
  have pre: "\<forall>c\<in>set ?pre. \<not> isRemoteCall c \<and> (\<forall>e. c \<noteq> QueueRequest e)"
    using p6 p7 by auto
  have tw7: "trace w7 = trace w @ ?pre" using t7 t6 t5 by simp
  have qw7: "queue w7 = queue w" using q7 q6 q5 by simp
  have gw7: "lateLog w7 = lateLog w" using g7 g6 g5 by simp
  have kw7: "fs_stat (localFs w7) newName = Some (isDirectory f)" using k l7 l6 l5 by simp
  from r7 tw7 pre qw7 gw7 kw7 show ?thesis
    by (intro exI[of _ f] exI[of _ w7] exI[of _ ?pre] conjI)
qed

lemma RQTree_rename_Ok:
  assumes ok: "RQTree_rename env oldName newName w = (Ok u, w')"
      and inL: "fs_stat (localFs w) oldName \<noteq> None"
  shows "\<exists>pre tail. trace w' = trace w @ pre @ tail \<and>
     (\<forall>c\<in>set pre. \<not> isRemoteCall c \<and> (\<forall>e. c \<noteq> QueueRequest e)) \<and>
     (if fs_stat (localFs w') newName = Some True
      then tail = [DamRename oldName newName, UpdatePath oldName newName] \<and>
           queue w' = map (\<lambda>e. e\<lparr>path := rebase oldName newName (path e)\<rparr>) (queue w)
      else if isTempFileName env oldName \<and> isTempFileName env newName
      then tail = [] \<and> queue w' = queue w
      else (\<exists>cs. tail = QueueRequest (moveEntry env oldName newName) # cs \<and>
                 (\<forall>c\<in>set cs. \<not> isRemoteCall c \<and> (\<forall>e. c \<noteq> QueueRequest e))) \<and>
           (queue w' = queue w @ [moveEntry env oldName newName]
            \<or> faults env (QueueRequest (moveEntry env oldName newName)) \<noteq> None \<and> queue w' = queue w))"
proof -
  from RQTree_rename_steps[OF ok inL] obtain f w7 pre where
    r7: "queueRename env f oldName newName w7 = (Ok u, w')" and
    tw7: "trace w7 = trace w @ pre" and
    pre: "\<forall>c\<in>set pre. \<not> isRemoteCall c \<and> (\<forall>e. c \<noteq> QueueRequest e)" and
    qw7: "queue w7 = queue w" and
    k: "fs_stat (localFs w7) newName = Some (isDirectory f)"
    by blast
  from k have nd: "newName \<noteq> [] \<or> isDirectory f"
    by (auto simp: fs_stat_def)
  note fin = queueRename_Ok[OF r7 nd]
  from fin have lf: "localFs w' = localFs w7" by simp
  have kk: "(fs_stat (localFs w') newName = Some True) = isDirectory f"
    using k lf by simp
  define R where "R tail \<longleftrightarrow>
     (if fs_stat (localFs w') newName = Some True
      then tail = [DamRename oldName newName, UpdatePath oldName newName] \<and>
           queue w' = map (\<lambda>e. e\<lparr>path := rebase oldName newName (path e)\<rparr>) (queue w)
      else if isTempFileName env oldName \<and> isTempFileName env newName
      then tail = [] \<and> queue w' = queue w
      else (\<exists>cs. tail = QueueRequest (moveEntry env oldName newName) # cs \<and>
                 (\<forall>c\<in>set cs. \<not> isRemoteCall c \<and> (\<forall>e. c \<noteq> QueueRequest e))) \<and>
           (queue w' = queue w @ [moveEntry env oldName newName]
            \<or> faults env (QueueRequest (moveEntry env oldName newName)) \<noteq> None \<and> queue w' = queue w))"
    for tail
  have "\<exists>tail. trace w' = trace w @ pre @ tail \<and> R tail"
  proof (cases "isDirectory f")
    case True
    with fin tw7 qw7 have
      "trace w' = trace w @ pre @ [DamRename oldName newName, UpdatePath oldName newName]"
      "queue w' = map (\<lambda>e. e\<lparr>path := rebase oldName newName (path e)\<rparr>) (queue w)"
      by simp_all
    moreover from this(2) have "R [DamRename oldName newName, UpdatePath oldName newName]"
      unfolding R_def kk using True by simp
    ultimately show ?thesis by blast
  next
    case False
    show ?thesis
    proof (cases "isTempFileName env oldName \<and> isTempFileName env newName")
      case True
      with fin False tw7 qw7 have "trace w' = trace w @ pre @ []" "queue w' = queue w"
        by simp_all
      moreover from this(2) have "R []"
        unfolding R_def kk using False True by simp
      ultimately show ?thesis by blast
    next
      case nt: False
      with fin False obtain cs where
        "trace w' = trace w7 @ QueueRequest (moveEntry env oldName newName) # cs"
        "\<forall>c\<in>set cs. \<not> isRemoteCall c \<and> (\<forall>e. c \<noteq> QueueRequest e)"
        "queue w' = queue w7 @ [moveEntry env oldName newName]
           \<or> faults env (QueueRequest (moveEntry env oldName newName)) \<noteq> None \<and> queue w' = queue w7"
        by auto
      with tw7 qw7 have
        "trace w' = trace w @ pre @ (QueueRequest (moveEntry env oldName newName) # cs)"
        "\<forall>c\<in>set cs. \<not> isRemoteCall c \<and> (\<forall>e. c \<noteq> QueueRequest e)"
        "queue w' = queue w @ [moveEntry env oldName newName]
           \<or> faults env (QueueRequest (moveEntry env oldName newName)) \<noteq> None \<and> queue w' = queue w"
        by simp_all
      moreover from this(2,3) have "R (QueueRequest (moveEntry env oldName newName) # cs)"
        unfolding R_def kk using False nt by simp
      ultimately show ?thesis by blast
    qed
  qed
  then obtain tail where "trace w' = trace w @ pre @ tail" "R tail" by blast
  with pre have "\<exists>pre tail. trace w' = trace w @ pre @ tail \<and>
     (\<forall>c\<in>set pre. \<not> isRemoteCall c \<and> (\<forall>e. c \<noteq> QueueRequest e)) \<and> R tail"
    by blast
  then show ?thesis unfolding R_def .
qed

lemma RQTree_rename_queue_error:
  assumes ok: "RQTree_rename env oldName newName w = (Ok u, w')"
      and inL: "fs_stat (localFs w) oldName \<noteq> None"
      and isfile: "fs_stat (localFs w') newName = Some False"
      and nt: "\<not> (isTempFileName env oldName \<and> isTempFileName env newName)"
      and qf: "faults env (QueueRequest (moveEntry env oldName newName)) = Some e"
  shows "\<exists>pre. trace w' = trace w @ pre @ [QueueRequest (moveEntry env oldName newName)] \<and>
               (\<forall>c\<in>set pre. \<not> isRemoteCall c \<and> (\<forall>e. c \<noteq> QueueRequest e))"
    and "lateLog w' = lateLog w @ [LogError ''unable to queue request'']"
    and "queue w' = queue w"
proof -
  from RQTree_rename_steps[OF ok inL] obtain f w7 pre where
    r7: "queueRename env f oldName newName w7 = (Ok u, w')" and
    tw7: "trace w7 = trace w @ pre" and
    pre: "\<forall>c\<in>set pre. \<not> isRemoteCall c \<and> (\<forall>e. c \<noteq> QueueRequest e)" and
    qw7: "queue w7 = queue w" and gw7: "lateLog w7 = lateLog w" and
    k: "fs_stat (localFs w7) newName = Some (isDirectory f)"
    by blast
  from k have nd: "newName \<noteq> [] \<or> isDirectory f"
    by (auto simp: fs_stat_def)
  from queueRename_Ok[OF r7 nd] have "localFs w' = localFs w7" by simp
  with k isfile have nodir: "\<not> isDirectory f" by simp
  with nd have ne: "newName \<noteq> []" by simp
  from r7 nodir have "w' = queueData env oldName ''MOVE'' (Some newName) w7"
    by (simp add: queueRename_def)
  with nt qf ne have w': "w' = (traced (QueueRequest (moveEntry env oldName newName)) w7)
               \<lparr>lateLog := lateLog w7 @ [LogError ''unable to queue request'']\<rparr>"
    by (simp add: queueData_eq queueSkipped_def queueEntry_move)
  from tw7 pre show "\<exists>pre. trace w' = trace w @ pre @ [QueueRequest (moveEntry env oldName newName)] \<and>
               (\<forall>c\<in>set pre. \<not> isRemoteCall c \<and> (\<forall>e. c \<noteq> QueueRequest e))"
    unfolding w' by (intro exI[of _ pre]) simp
  from gw7 show "lateLog w' = lateLog w @ [LogError ''unable to queue request'']"
    unfolding w' by simp
  from qw7 show "queue w' = queue w" unfolding w' by simp
qed

subsection \<open>Temporary names\<close>

lemma RQTree_delete_temp_queue:
  assumes "isTempFileName env name"
  shows "queue (snd (RQTree_delete env name w)) = queue w"
proof -
  have q: "queueData env name ''DELETE'' None v = v" for v
    using assms by (simp add: queueData_def)
  show ?thesis
    unfolding RQTree_delete_def q
    by (auto simp: andThen_def invoke_def FSTree_exists_def FSTree_delete_def DAMTree_delete_def
        RQFile_deleteWorkFiles_def invalidateContentCache_def
        split: option.splits bool.splits)
qed

subsection \<open>Failures of the queue\<close>

lemma RQTree_delete_queue_faults:
  assumes agree: "\<forall>c. (\<forall>e. c \<noteq> QueueRequest e) \<longrightarrow> faults env' c = faults env c"
  shows "fst (RQTree_delete env' name w) = fst (RQTree_delete env name w)"
proof -
  have e1: "FSTree_exists env' Local name = FSTree_exists env Local name"
    unfolding FSTree_exists_def using agree by (intro invoke_same) simp
  have e2: "FSTree_delete env' Local name = FSTree_delete env Local name"
    unfolding FSTree_delete_def using agree by (intro invoke_same) simp
  have e3: "DAMTree_delete env' name = DAMTree_delete env name"
    unfolding DAMTree_delete_def using agree by (intro invoke_same) simp
  have tail: "fst (case RQFile_deleteWorkFiles e name v of
                   (Err err, w') \<Rightarrow> (Ok (), traced (LogError m) w')
                 | (Ok u, w') \<Rightarrow> (Ok (), w')
                 | (Throws, w') \<Rightarrow> (Throws, w')) = Ok ()" for v m e
    by (simp add: RQFile_deleteWorkFiles_def invoke_def split: option.splits)
  show ?thesis
    unfolding RQTree_delete_def e1 e2 e3
    apply (rule fst_andThen_cong)
    subgoal for v w1
      apply (cases v)
       apply (simp only: if_True)
       apply (rule fst_andThen_cong)
       apply (simp only: tail)
      apply (simp only: if_False)
      done
    done
qed

lemma RQTree_rename_queue_faults:
  assumes agree: "\<forall>c. (\<forall>e. c \<noteq> QueueRequest e) \<longrightarrow> faults env' c = faults env c"
  shows "fst (RQTree_rename env' oldName newName w) = fst (RQTree_rename env oldName newName w)"
proof -
  have ex: "FSTree_exists env' t n = FSTree_exists env t n" for t n
    unfolding FSTree_exists_def using agree by (intro invoke_same) simp
  have rn: "FSTree_rename env' t a b = FSTree_rename env t a b" for t a b
    unfolding FSTree_rename_def using agree by (intro invoke_same) simp
  have ci: "createFileInstance env' t n = createFileInstance env t n" for t n
    unfolding createFileInstance_def using agree by (intro invoke_same) simp
  have dr: "DAMTree_rename env' a b = DAMTree_rename env a b" for a b
    unfolding DAMTree_rename_def using agree by (intro invoke_same) simp
  have up: "RequestQueue_updatePath env' a b = RequestQueue_updatePath env a b" for a b
    unfolding RequestQueue_updatePath_def using agree by (intro invoke_same) simp
  have qr: "fst (queueRename env' f oldName newName v) = fst (queueRename env f oldName newName v)" for f v
    by (cases "isDirectory f") (simp_all add: queueRename_def dr up)
  have rc: "fst (renameCreated env' f x oldName newName v) = fst (renameCreated env f x oldName newName v)" for f x v
    unfolding renameCreated_def rn
    apply (cases x)
     apply (simp only: if_True)
     apply (rule fst_andThen_cong)
     apply (rule qr)
    apply (simp only: if_False)
    apply (rule qr)
    done
  show ?thesis
    unfolding RQTree_rename_def ex rn ci dr
    apply (rule fst_andThen_cong)
    subgoal for v w1
      apply (cases v)
       apply (simp only: if_True)
       apply (rule fst_andThen_cong)
       apply (rule fst_andThen_cong)
       apply (rule fst_andThen_cong)
       apply (rule fst_andThen_cong)
      subgoal for _ _ _ _ _ _ c _
        apply (cases c)
         apply (simp only: if_True)
         apply (rule fst_andThen_cong)
         apply (rule rc)
        apply (simp only: if_False)
        apply (rule rc)
        done
      apply (simp only: if_False)
      done
    done
qed

section \<open>The claims\<close>

subsection \<open>C1: names that differ in normalisation form\<close>

text \<open>
  Claim C1 says that the merge of \<^verbatim>\<open>list\<close> compares the names of local and remote entries
  with NFKD-normalised equality, so that a local and a remote entry whose names differ only in
  normalisation form become one merged entry. The merge looks the local name up as a key of
  the \<^verbatim>\<open>lookup\<close> object, which is equality of strings. The theorem runs \<^verbatim>\<open>list\<close> on a share
  whose remote tree has the name \<open>cafeNFC\<close> under \<^verbatim>\<open>/a\<close> and whose local tree has \<open>cafeNFD\<close>,
  listing the composed name: \<^verbatim>\<open>unicodeEquals\<close> of \<^verbatim>\<open>FSTree.list\<close> finds the local file, and
  the merge does not match it with the remote one. When the file cannot be deleted the two
  are listed as two entries; when it can, the local file is taken for an orphan and deleted.
\<close>

theorem list_merge_ignores_normalization:
  "unicodeEquals busyEnv cafeNFC cafeNFD \<and>
   fst (RQTree_list busyEnv (''/a/'' @ cafeNFC) (sampleWorld [cafeNFD] [] [cafeNFC])) =
     Ok [RQFromRemote (''/a/'' @ cafeNFC)
           \<lparr>getName = cafeNFC, getPath = ''/a/'' @ cafeNFC, isDirectory = False\<rparr>,
         RQFromLocal (''/a/'' @ cafeNFD)
           \<lparr>getName = cafeNFD, getPath = ''/a/'' @ cafeNFD, isDirectory = False\<rparr>] \<and>
   fst (RQTree_list sampleEnv (''/a/'' @ cafeNFC) (sampleWorld [cafeNFD] [] [cafeNFC])) =
     Ok [RQFromRemote (''/a/'' @ cafeNFC)
           \<lparr>getName = cafeNFC, getPath = ''/a/'' @ cafeNFC, isDirectory = False\<rparr>] \<and>
   fs_stat (localFs (snd (RQTree_list sampleEnv (''/a/'' @ cafeNFC) (sampleWorld [cafeNFD] [] [cafeNFC]))))
     (''/a/'' @ cafeNFD) = None"
  by (simp add: eval_defs; blast)

subsection \<open>C2: temporary names and the queue\<close>

text \<open>
  Claim C2 says that no mutation results in a queue entry whose \<open>path\<close> or \<open>destPath\<close> is a
  temporary name. It fails: \<^verbatim>\<open>queueData\<close> skips a request with a destination only when both
  names are temporary. Renaming the temporary file \<^verbatim>\<open>/a/~draft.txt\<close> to \<^verbatim>\<open>/a/final.txt\<close> queues
  a \<^verbatim>\<open>MOVE\<close> whose \<open>path\<close> is temporary, and renaming \<^verbatim>\<open>/a/final.txt\<close> to \<^verbatim>\<open>/a/~draft.txt\<close>
  queues one whose \<open>destPath\<close> is temporary.
\<close>

theorem temp_name_queued:
  "isTempFileName sampleEnv ''/a/~draft.txt'' \<and>
   queue (snd (RQTree_rename sampleEnv ''/a/~draft.txt'' ''/a/final.txt'' (sampleWorld [''~draft.txt''] [] []))) =
     [\<lparr>method = ''MOVE'', path = ''/a/~draft.txt'', destPath = Some ''/a/final.txt'',
       remotePrefix = ''http://dam/api/assets'', localPrefix = ''/var/rq/local''\<rparr>] \<and>
   queue (snd (RQTree_rename sampleEnv ''/a/final.txt'' ''/a/~draft.txt'' (sampleWorld [''final.txt''] [] []))) =
     [\<lparr>method = ''MOVE'', path = ''/a/final.txt'', destPath = Some ''/a/~draft.txt'',
       remotePrefix = ''http://dam/api/assets'', localPrefix = ''/var/rq/local''\<rparr>]"
  by (simp add: eval_defs; blast)

text \<open>
  Claim C2 as amended: a call of \<^verbatim>\<open>queueData\<close> (and so a delete or a rename of a file) leaves
  the world as it is when the name is temporary and the destination, if one is given, is
  temporary too; deleting a temporary name leaves the queue as it is. In any case
  \<^verbatim>\<open>queueData\<close> adds at most one entry to the queue, with the name as \<open>path\<close> and the method
  given, and in that entry the \<open>path\<close> is not temporary or the \<open>destPath\<close> is the destination
  given and is not temporary.
\<close>

theorem queueData_temp_isolation:
  "(isTempFileName env name \<and> (\<forall>n. newName = Some n \<and> n \<noteq> [] \<longrightarrow> isTempFileName env n)
      \<longrightarrow> queueData env name meth newName w = w) \<and>
   (isTempFileName env name \<longrightarrow> queue (snd (RQTree_delete env name w)) = queue w) \<and>
   (\<exists>es. queue (queueData env name meth newName w) = queue w @ es \<and> length es \<le> 1 \<and>
      (\<forall>e\<in>set es. path e = name \<and> method e = meth \<and>
         (\<not> isTempFileName env name \<or>
          (\<exists>n. destPath e = Some n \<and> newName = Some n \<and> \<not> isTempFileName env n))))"
proof -
  have "isTempFileName env name \<and> (\<forall>n. newName = Some n \<and> n \<noteq> [] \<longrightarrow> isTempFileName env n)
      \<longrightarrow> queueData env name meth newName w = w"
    by (auto simp add: queueData_def Let_def split: option.splits)
  moreover have "isTempFileName env name \<longrightarrow> queue (snd (RQTree_delete env name w)) = queue w"
    by (simp add: RQTree_delete_temp_queue)
  moreover have "\<exists>es. queue (queueData env name meth newName w) = queue w @ es \<and> length es \<le> 1 \<and>
      (\<forall>e\<in>set es. path e = name \<and> method e = meth \<and>
         (\<not> isTempFileName env name \<or>
          (\<exists>n. destPath e = Some n \<and> newName = Some n \<and> \<not> isTempFileName env n)))"
    by (auto simp add: queueData_def RequestQueue_queueRequest_def invoke_def traced_def Let_def
        split: option.splits if_splits)
  ultimately show ?thesis by (intro conjI)
qed

text \<open>The witness for C2: deleting the temporary file \<^verbatim>\<open>/a/~t.tmp\<close> queues nothing.\<close>

theorem queueData_temp_isolation_witness:
  "isTempFileName sampleEnv ''/a/~t.tmp'' \<and>
   queueData sampleEnv ''/a/~t.tmp'' ''DELETE'' None (sampleWorld [''~t.tmp''] [] []) =
     sampleWorld [''~t.tmp''] [] [] \<and>
   queue (snd (RQTree_delete sampleEnv ''/a/~t.tmp'' (sampleWorld [''~t.tmp''] [] []))) = []"
proof -
  have t: "isTempFileName sampleEnv ''/a/~t.tmp''"
    by (simp add: sampleEnv_def getPathName_def)
  have q: "queue (sampleWorld [''~t.tmp''] [] []) = []"
    by (simp add: sampleWorld_def)
  from queueData_temp_isolation[of sampleEnv "''/a/~t.tmp''" None "''DELETE''"
      "sampleWorld [''~t.tmp''] [] []"] t q
  show ?thesis by simp
qed

subsection \<open>C3: a deleted file is hidden from the listing\<close>

text \<open>
  Claim C3 says that after \<^verbatim>\<open>delete\<close> has returned for a name that the local tree contained,
  \<^verbatim>\<open>list\<close> does not return the name for as long as the \<^verbatim>\<open>DELETE\<close> entry stays in the queue.
  It fails in three ways, each with the entry still in the queue. When the file
  \<^verbatim>\<open>/a/x.txt\<close> is created again, \<^verbatim>\<open>list\<close> returns the new local file. When its content is then
  queued and it is renamed to \<^verbatim>\<open>/a/z.txt\<close>, the name is gone from the local tree once more, but
  the latest request the queue holds for the name is the \<^verbatim>\<open>MOVE\<close>, and \<^verbatim>\<open>list\<close> returns the
  remote entry. When the local tree has lost the directory (as after a \<^verbatim>\<open>deleteDirectory\<close>
  that removed it from the local tree and then failed on the remote tree), \<^verbatim>\<open>list\<close> returns
  the remote listing as it is.
\<close>

theorem deleted_name_listed_again:
  "queue (snd (RQTree_createFile sampleEnv ''/a/x.txt''
        (snd (RQTree_delete sampleEnv ''/a/x.txt'' (sampleWorld [''x.txt''] [] [''x.txt''])))))
     = [deleteEntry sampleEnv ''/a/x.txt'']
   \<and>
   fst (RQTree_list sampleEnv ''/a/*''
      (snd (RQTree_createFile sampleEnv ''/a/x.txt''
        (snd (RQTree_delete sampleEnv ''/a/x.txt'' (sampleWorld [''x.txt''] [] [''x.txt'']))))))
     = Ok [RQFromLocal ''/a/x.txt'' (fileHandle ''x.txt'')]
   \<and>
   deleteEntry sampleEnv ''/a/x.txt'' \<in> set (queue
      (snd (RQTree_rename sampleEnv ''/a/x.txt'' ''/a/z.txt''
        (queueData sampleEnv ''/a/x.txt'' ''PUT'' None
          (snd (RQTree_createFile sampleEnv ''/a/x.txt''
            (snd (RQTree_delete sampleEnv ''/a/x.txt'' (sampleWorld [''x.txt''] [] [''x.txt''])))))))))
   \<and>
   fs_stat (localFs
      (snd (RQTree_rename sampleEnv ''/a/x.txt'' ''/a/z.txt''
        (queueData sampleEnv ''/a/x.txt'' ''PUT'' None
          (snd (RQTree_createFile sampleEnv ''/a/x.txt''
            (snd (RQTree_delete sampleEnv ''/a/x.txt'' (sampleWorld [''x.txt''] [] [''x.txt''])))))))))
      ''/a/x.txt'' = None
   \<and>
   fst (RQTree_list sampleEnv ''/a/*''
      (snd (RQTree_rename sampleEnv ''/a/x.txt'' ''/a/z.txt''
        (queueData sampleEnv ''/a/x.txt'' ''PUT'' None
          (snd (RQTree_createFile sampleEnv ''/a/x.txt''
            (snd (RQTree_delete sampleEnv ''/a/x.txt'' (sampleWorld [''x.txt''] [] [''x.txt''])))))))))
     = Ok [RQFromRemote ''/a/x.txt'' (fileHandle ''x.txt''),
           RQFromLocal ''/a/z.txt'' (fileHandle ''z.txt'')]
   \<and>
   queue ((snd (RQTree_delete sampleEnv ''/a/x.txt'' (sampleWorld [''x.txt''] [] [''x.txt''])))
            \<lparr>localFs := noEntries\<rparr>)
     = [deleteEntry sampleEnv ''/a/x.txt'']
   \<and>
   fst (RQTree_list sampleEnv ''/a/*''
      ((snd (RQTree_delete sampleEnv ''/a/x.txt'' (sampleWorld [''x.txt''] [] [''x.txt''])))
         \<lparr>localFs := noEntries\<rparr>))
     = Ok [DAMFile (fileHandle ''x.txt'')]"
  by (simp add: eval_defs deleteEntry_def; blast)

text \<open>
  Claim C3 as amended: after \<^verbatim>\<open>delete\<close> has returned for a name that the local tree
  contained, the name is gone from the local tree and, unless the name is temporary or the queue
  failed, the \<^verbatim>\<open>DELETE\<close> entry is the last of the queue and the queue reports a \<^verbatim>\<open>DELETE\<close>
  for the name. In every later state in which the name is absent from the local tree, its
  directory is there and the queue reports the \<^verbatim>\<open>DELETE\<close> for the name, no file that \<^verbatim>\<open>list\<close>
  returns for that directory has the name as its path: the remote entry is skipped by the
  first loop and the local tree has nothing to add. Names are absolute, they contain a slash.
\<close>

theorem delete_hides_from_list:
  assumes "fst (RQTree_delete env n w) = Ok u"
      and "fs_stat (localFs w) n \<noteq> None"
      and "CHR ''/'' \<in> set n"
  shows "fs_stat (localFs (snd (RQTree_delete env n w))) n = None \<and>
         (\<not> isTempFileName env n \<and> faults env (QueueRequest (deleteEntry env n)) = None \<longrightarrow>
            queue (snd (RQTree_delete env n w)) = queue w @ [deleteEntry env n] \<and>
            requestsOf (queue (snd (RQTree_delete env n w))) (dirOf n) (getPathName n) = Some ''DELETE'') \<and>
         (\<forall>w2 pattern files.
            fs_stat (localFs w2) n = None \<and> fs_stat (localFs w2) (dirOf n) \<noteq> None \<and>
            requestsOf (queue w2) (dirOf n) (getPathName n) = Some ''DELETE'' \<and>
            dirOf pattern = dirOf n \<and> fst (RQTree_list env pattern w2) = Ok files
            \<longrightarrow> n \<notin> rqPath ` set files)"
proof -
  obtain w1 where w1: "RQTree_delete env n w = (Ok u, w1)"
    using assms(1) by (cases "RQTree_delete env n w") simp
  have hidden: "n \<notin> rqPath ` set files"
    if a: "fs_stat (localFs w2) n = None" and b: "fs_stat (localFs w2) (dirOf n) \<noteq> None"
       and c: "requestsOf (queue w2) (dirOf n) (getPathName n) = Some ''DELETE''"
       and d: "dirOf pattern = dirOf n" and e: "fst (RQTree_list env pattern w2) = Ok files"
    for w2 pattern files
  proof -
    obtain w3 where w3: "RQTree_list env pattern w2 = (Ok files, w3)"
      using e by (cases "RQTree_list env pattern w2") simp
    from RQTree_list_hidden[OF a b c d assms(3) w3] show ?thesis by blast
  qed
  have s: "snd (RQTree_delete env n w) = w1" by (simp add: w1)
  note post = RQTree_delete_post[OF w1 assms(2)]
  have queued: "\<not> isTempFileName env n \<and> faults env (QueueRequest (deleteEntry env n)) = None \<longrightarrow>
            queue w1 = queue w @ [deleteEntry env n] \<and>
            requestsOf (queue w1) (dirOf n) (getPathName n) = Some ''DELETE''"
    using post(2) by blast
  have later: "\<forall>w2 pattern files.
            fs_stat (localFs w2) n = None \<and> fs_stat (localFs w2) (dirOf n) \<noteq> None \<and>
            requestsOf (queue w2) (dirOf n) (getPathName n) = Some ''DELETE'' \<and>
            dirOf pattern = dirOf n \<and> fst (RQTree_list env pattern w2) = Ok files
            \<longrightarrow> n \<notin> rqPath ` set files"
    using hidden by blast
  from post(1) queued later show ?thesis unfolding s by (intro conjI)
qed

text \<open>The witness for C3: \<^verbatim>\<open>/a/x.txt\<close> is deleted from a share that has \<^verbatim>\<open>x.txt\<close> and \<^verbatim>\<open>y.txt\<close>
  in both trees; the listing that follows has \<^verbatim>\<open>y.txt\<close> alone.\<close>

theorem delete_hides_from_list_witness:
  "fst (RQTree_delete sampleEnv ''/a/x.txt'' (sampleWorld [''x.txt'', ''y.txt''] [] [''x.txt'', ''y.txt''])) = Ok () \<and>
   fs_stat (localFs (sampleWorld [''x.txt'', ''y.txt''] [] [''x.txt'', ''y.txt''])) ''/a/x.txt'' \<noteq> None \<and>
   queue (snd (RQTree_delete sampleEnv ''/a/x.txt'' (sampleWorld [''x.txt'', ''y.txt''] [] [''x.txt'', ''y.txt''])))
     = [deleteEntry sampleEnv ''/a/x.txt''] \<and>
   fst (RQTree_list sampleEnv ''/a/*''
          (snd (RQTree_delete sampleEnv ''/a/x.txt'' (sampleWorld [''x.txt'', ''y.txt''] [] [''x.txt'', ''y.txt'']))))
     = Ok [RQFromLocalAndRemote ''/a/y.txt''
             \<lparr>getName = ''y.txt'', getPath = ''/a/y.txt'', isDirectory = False\<rparr>
             \<lparr>getName = ''y.txt'', getPath = ''/a/y.txt'', isDirectory = False\<rparr>] \<and>
   ''/a/x.txt'' \<notin> rqPath ` set [RQFromLocalAndRemote ''/a/y.txt''
             \<lparr>getName = ''y.txt'', getPath = ''/a/y.txt'', isDirectory = False\<rparr>
             \<lparr>getName = ''y.txt'', getPath = ''/a/y.txt'', isDirectory = False\<rparr>]"
proof -
  let ?w = "sampleWorld [''x.txt'', ''y.txt''] [] [''x.txt'', ''y.txt'']"
  let ?w1 = "snd (RQTree_delete sampleEnv ''/a/x.txt'' ?w)"
  let ?files = "[RQFromLocalAndRemote ''/a/y.txt''
             \<lparr>getName = ''y.txt'', getPath = ''/a/y.txt'', isDirectory = False\<rparr>
             \<lparr>getName = ''y.txt'', getPath = ''/a/y.txt'', isDirectory = False\<rparr>]"
  have h1: "fst (RQTree_delete sampleEnv ''/a/x.txt'' ?w) = Ok ()"
    by (simp add: eval_defs; blast)
  have h2: "fs_stat (localFs ?w) ''/a/x.txt'' \<noteq> None"
    by (simp add: sample_defs fs_defs path_defs)
  have h3: "CHR ''/'' \<in> set ''/a/x.txt''" by simp
  have t: "\<not> isTempFileName sampleEnv ''/a/x.txt''"
    "faults sampleEnv (QueueRequest (deleteEntry sampleEnv ''/a/x.txt'')) = None"
    by (simp_all add: sampleEnv_def getPathName_def)
  have q0: "queue ?w = []" by (simp add: sampleWorld_def)
  have d: "fs_stat (localFs ?w1) (dirOf ''/a/x.txt'') \<noteq> None"
    by (simp add: eval_defs; blast)
  have p: "dirOf ''/a/*'' = dirOf ''/a/x.txt''"
    by (simp add: path_defs)
  have l: "fst (RQTree_list sampleEnv ''/a/*'' ?w1) = Ok ?files"
    by (simp add: eval_defs; blast)
  note inst = delete_hides_from_list[OF h1 h2 h3]
  from inst t have g: "fs_stat (localFs ?w1) ''/a/x.txt'' = None"
    "queue ?w1 = queue ?w @ [deleteEntry sampleEnv ''/a/x.txt'']"
    "requestsOf (queue ?w1) (dirOf ''/a/x.txt'') (getPathName ''/a/x.txt'') = Some ''DELETE''"
    by blast+
  from g(2) q0 have g2: "queue ?w1 = [deleteEntry sampleEnv ''/a/x.txt'']" by simp
  from inst g(1,3) d p l have "''/a/x.txt'' \<notin> rqPath ` set ?files" by blast
  with h1 h2 g2 l show ?thesis by (intro conjI)
qed

subsection \<open>C4: orphans that cannot be deleted\<close>

text \<open>
  Claim C4 says that an orphan is deleted only when \<^verbatim>\<open>canDelete\<close> answers true, and that it
  is otherwise kept, listed as a local file and surfaced as a conflict. The theorem runs
  \<^verbatim>\<open>list\<close> on a share whose local tree has the orphan \<^verbatim>\<open>/a/old.txt\<close> and whose \<^verbatim>\<open>canDelete\<close>
  answers false: the file is kept and listed, the callback receives no error, and all that
  happens after the answer of \<^verbatim>\<open>canDelete\<close> is a line in the info log. The comment of the source
  on this branch says that a conflict event is sent; none is. That nothing is deleted unless
  \<^verbatim>\<open>canDelete\<close> has answered true is lemma \<open>RQTree_list_deletes_deletable\<close>.
\<close>

theorem orphan_conflict_only_logged:
  "fst (RQTree_list busyEnv ''/a/*'' (sampleWorld [''old.txt''] [] [])) =
     Ok [RQFromLocal ''/a/old.txt''
           \<lparr>getName = ''old.txt'', getPath = ''/a/old.txt'', isDirectory = False\<rparr>] \<and>
   trace (snd (RQTree_list busyEnv ''/a/*'' (sampleWorld [''old.txt''] [] []))) =
     [DamList ''/a/*'', FsStat Local ''/a'', FsReaddir Local ''/a'',
      FSFileCreateInstance Local ''/a/old.txt'', GetRequests ''/a'',
      CreateInstanceFromLocal ''/a/old.txt'', FsStat Work ''/a/old.txt.rqcf'',
      CanDelete ''/a/old.txt'',
      LogInfo ''file %s is in conflict because it might need to be deleted. sending event''
        ''/a/old.txt'']"
  by (simp add: eval_defs; blast)

subsection \<open>C5: opening a name that is nowhere\<close>

text \<open>
  Claim C5 says that \<^verbatim>\<open>open\<close> fails with \<open>NotFound\<close> whenever neither tree contains the name.
  It fails for a name below a regular file of the local tree, here \<^verbatim>\<open>/a/x.txt/y\<close>: \<^verbatim>\<open>fs.stat\<close>
  fails with \<^verbatim>\<open>ENOTDIR\<close>, which \<^verbatim>\<open>exists\<close> of the local tree passes on as an error and not as
  the answer false, and \<^verbatim>\<open>open\<close> passes it on in turn.
\<close>

theorem open_below_file_not_NotFound:
  "fs_stat (remoteFs (sampleWorld [''x.txt''] [] [])) ''/a/x.txt/y'' = None \<and>
   fs_stat (localFs (sampleWorld [''x.txt''] [] [])) ''/a/x.txt/y'' = None \<and>
   fst (RQTree_open sampleEnv ''/a/x.txt/y'' (sampleWorld [''x.txt''] [] [])) = Err Io"
  by (simp add: eval_defs; blast)

text \<open>
  Claim C5 as amended: when neither tree contains the name, \<^verbatim>\<open>open\<close> fails, with the error of
  the first call that fails: the existence check of the remote tree, the one of the local tree
  (an \<open>Io\<close> error when a directory on the way to the name is a regular file), or the opening
  of the local file, which answers \<open>NotFound\<close> unless it fails for another reason. So
  \<^verbatim>\<open>open\<close> fails with \<open>NotFound\<close> when the two checks answer.
\<close>

theorem open_missing_fails:
  assumes "fs_stat (remoteFs w) n = None" "fs_stat (localFs w) n = None"
  shows "fst (RQTree_open env n w) =
     Err (case faults env (DamExists n) of
            Some e \<Rightarrow> e
          | None \<Rightarrow>
              (case faults env (FsStat Local n) of
                 Some e \<Rightarrow> e
               | None \<Rightarrow>
                   if fs_enotdir (localFs w) n then Io
                   else (case faults env (FSFileCreateInstance Local n) of
                           Some e \<Rightarrow> e
                         | None \<Rightarrow> NotFound)))"
  using assms
  by (simp add: RQTree_open_def DAMTree_exists_def FSTree_exists_def FSTree_open_def
      createFileInstance_def andThen_def invoke_def getFs_def split: option.splits)

text \<open>The witness for C5: \<^verbatim>\<open>/a/nope.txt\<close> is in no tree of the sample share, and \<^verbatim>\<open>open\<close>
  fails with \<open>NotFound\<close>.\<close>

theorem open_missing_fails_witness:
  "fs_stat (remoteFs (sampleWorld [''x.txt''] [] [''y.txt''])) ''/a/nope.txt'' = None \<and>
   fs_stat (localFs (sampleWorld [''x.txt''] [] [''y.txt''])) ''/a/nope.txt'' = None \<and>
   fst (RQTree_open sampleEnv ''/a/nope.txt'' (sampleWorld [''x.txt''] [] [''y.txt''])) = Err NotFound"
proof -
  have h: "fs_stat (remoteFs (sampleWorld [''x.txt''] [] [''y.txt''])) ''/a/nope.txt'' = None"
    "fs_stat (localFs (sampleWorld [''x.txt''] [] [''y.txt''])) ''/a/nope.txt'' = None"
    by (simp_all add: sample_defs fs_defs path_defs)
  have f: "faults sampleEnv c = None" for c
    by (simp add: sampleEnv_def)
  have d: "\<not> fs_enotdir (localFs (sampleWorld [''x.txt''] [] [''y.txt''])) ''/a/nope.txt''"
    by (simp add: sample_defs fs_defs path_defs)
  from open_missing_fails[OF h, of sampleEnv] h f d show ?thesis by simp
qed

subsection \<open>C6: the order of the listing\<close>

text \<open>
  Claim C6 says that every entry present in both trees is replaced in place by its merged
  form and that the entries present only locally are appended. It fails for a temporary file:
  \<^verbatim>\<open>processLocal\<close> appends a temporary local file before it looks its name up, so a temporary
  name that the remote tree lists too is returned twice, as a remote entry and as a local one.
\<close>

theorem list_merge_temp_in_both:
  "fst (list_merge sampleEnv
          [\<lparr>getName = ''~lock'', getPath = ''/a/~lock'', isDirectory = False\<rparr>]
          [\<lparr>getName = ''~lock'', getPath = ''/a/~lock'', isDirectory = False\<rparr>]
          None (Some Map.empty) (sampleWorld [''~lock''] [] [''~lock''])) =
     Ok [RQFromRemote ''/a/~lock'' \<lparr>getName = ''~lock'', getPath = ''/a/~lock'', isDirectory = False\<rparr>,
         RQFromLocal ''~lock'' \<lparr>getName = ''~lock'', getPath = ''/a/~lock'', isDirectory = False\<rparr>]"
  by (simp add: eval_defs; blast)

text \<open>
  Claim C6 as amended: the files the merge returns are the surviving remote entries, in their
  order, followed by local files in the order of the local listing (\<open>kept\<close> is a subsequence
  of it). The entry at the place of a surviving remote entry is that entry, or its merge with a
  local file of the same name that is not temporary; when the surviving remote names are
  distinct, it is the merge whenever such a local file exists. The local files appended are
  temporary files, whether or not the remote tree lists their name, and files whose name no
  surviving remote entry has and that are created by a client (the creation marker is in the
  work tree) or are orphans that cannot be deleted (\<^verbatim>\<open>canDelete\<close> answers false); an orphan
  that can be deleted is not listed. Every temporary file and every such orphan is appended.
  For a regular listing the appended files are exactly the files of this kind, each once for
  each time the local listing has it. The names that every JavaScript object has as inherited
  properties, those of \<open>objectPrototypeKeys\<close>, are left out of the statement of which files
  are appended, and \<^verbatim>\<open>__proto__\<close> of the statement on merged entries: what the merge does
  with a local file of such a name is not part of the amended claim.
\<close>

theorem list_merge_order:
  assumes "fst (list_merge env remoteFiles localFiles err (Some req) w) = Ok files"
  shows "length (survivingRemote req remoteFiles) \<le> length files \<and>
         (\<exists>kept. subseq kept localFiles \<and>
            files = take (length (survivingRemote req remoteFiles)) files @ map (localOnly env) kept \<and>
            (\<forall>l\<in>set kept. appendedLocal env (survivingRemote req remoteFiles) (workFs w) l) \<and>
            (\<forall>l\<in>set localFiles. isTempFileName env (getName l) \<or>
                getName l \<notin> getName ` set (survivingRemote req remoteFiles) \<and>
                getName l \<notin> set objectPrototypeKeys \<and> \<not> canDeleteOf env (getPath l)
                \<longrightarrow> l \<in> set kept) \<and>
            (regularListing env localFiles \<longrightarrow>
               kept = filter (appendedLocal env (survivingRemote req remoteFiles) (workFs w)) localFiles)) \<and>
         (\<forall>i<length (survivingRemote req remoteFiles).
             files ! i = RQFromRemote (getPath (survivingRemote req remoteFiles ! i))
                           (survivingRemote req remoteFiles ! i) \<or>
             (\<exists>l\<in>set localFiles. \<not> isTempFileName env (getName l) \<and>
                getName l = getName (survivingRemote req remoteFiles ! i) \<and>
                files ! i = RQFromLocalAndRemote (getPath l) l (survivingRemote req remoteFiles ! i))) \<and>
         (distinct (map getName (survivingRemote req remoteFiles)) \<longrightarrow>
            (\<forall>i<length (survivingRemote req remoteFiles). \<forall>l\<in>set localFiles.
                \<not> isTempFileName env (getName l) \<and>
                getName l = getName (survivingRemote req remoteFiles ! i) \<and>
                getName l \<noteq> ''__proto__'' \<longrightarrow>
                (\<exists>l'\<in>set localFiles. \<not> isTempFileName env (getName l') \<and> getName l' = getName l \<and>
                   files ! i = RQFromLocalAndRemote (getPath l') l' (survivingRemote req remoteFiles ! i))))"
proof -
  let ?S = "survivingRemote req remoteFiles"
  obtain w' where ok: "list_merge env remoteFiles localFiles err (Some req) w = (Ok files, w')"
    using assms by (cases "list_merge env remoteFiles localFiles err (Some req) w") simp
  from list_merge_shape(1)[OF ok] obtain kept where
    k: "subseq kept localFiles" "length ?S \<le> length files"
       "drop (length ?S) files = map (localOnly env) kept"
       "\<forall>l\<in>set kept. isTempFileName env (getName l) \<or>
               getName l \<notin> getName ` set ?S \<and>
               (fs_stat (workFs w) (getCreateFileName (getPath l)) \<noteq> None \<or>
                \<not> canDeleteOf env (getPath l))"
       "\<forall>l\<in>set localFiles. isTempFileName env (getName l) \<or>
               getName l \<notin> getName ` set ?S \<and>
               getName l \<notin> set objectPrototypeKeys \<and>
               (fs_stat (workFs w') (getCreateFileName (getPath l)) \<noteq> None \<or>
                \<not> canDeleteOf env (getPath l)) \<longrightarrow> l \<in> set kept"
    by blast
  from k(3) have split: "files = take (length ?S) files @ map (localOnly env) kept"
    by (metis append_take_drop_id)
  from k(4) have up: "\<forall>l\<in>set kept. appendedLocal env ?S (workFs w) l"
    by (simp add: appendedLocal_def)
  from k(5) have lo: "\<forall>l\<in>set localFiles. isTempFileName env (getName l) \<or>
                getName l \<notin> getName ` set ?S \<and>
                getName l \<notin> set objectPrototypeKeys \<and> \<not> canDeleteOf env (getPath l)
                \<longrightarrow> l \<in> set kept"
    by blast
  have ex: "regularListing env localFiles \<longrightarrow>
               kept = filter (appendedLocal env ?S (workFs w)) localFiles"
  proof
    assume "regularListing env localFiles"
    from list_merge_exact[OF ok this] k(3) have
      "map (localOnly env) kept = map (localOnly env) (filter (appendedLocal env ?S (workFs w)) localFiles)"
      by simp
    then show "kept = filter (appendedLocal env ?S (workFs w)) localFiles"
      by (rule localOnly_inj)
  qed
  from k(1) split up lo ex have part: "\<exists>kept. subseq kept localFiles \<and>
            files = take (length ?S) files @ map (localOnly env) kept \<and>
            (\<forall>l\<in>set kept. appendedLocal env ?S (workFs w) l) \<and>
            (\<forall>l\<in>set localFiles. isTempFileName env (getName l) \<or>
                getName l \<notin> getName ` set ?S \<and>
                getName l \<notin> set objectPrototypeKeys \<and> \<not> canDeleteOf env (getPath l)
                \<longrightarrow> l \<in> set kept) \<and>
            (regularListing env localFiles \<longrightarrow>
               kept = filter (appendedLocal env ?S (workFs w)) localFiles)"
    by (intro exI[of _ kept] conjI)
  note head = list_merge_shape(2)[OF ok]
  have merged: "distinct (map getName ?S) \<longrightarrow>
              (\<forall>i<length ?S. \<forall>l\<in>set localFiles.
                  \<not> isTempFileName env (getName l) \<and> getName l = getName (?S ! i) \<and>
                  getName l \<noteq> ''__proto__'' \<longrightarrow>
                  (\<exists>l'\<in>set localFiles. \<not> isTempFileName env (getName l') \<and> getName l' = getName l \<and>
                     files ! i = RQFromLocalAndRemote (getPath l') l' (?S ! i)))"
    using list_merge_shape(3)[OF ok] by auto
  from k(2) part head merged show ?thesis by (intro conjI)
qed

text \<open>The witness for C6: three remote files of which \<^verbatim>\<open>b.txt\<close> has a pending \<^verbatim>\<open>DELETE\<close>,
  and four local files: one that the remote tree has, a temporary one, a created one and an
  orphan that can be deleted. The listing is regular; the temporary and the created file are
  appended, the merged file and the orphan are not.\<close>

theorem list_merge_order_witness:
  "fst (list_merge sampleEnv
          [fileHandle ''a.txt'', fileHandle ''b.txt'', fileHandle ''c.txt'']
          [fileHandle ''c.txt'', fileHandle ''~tmp'', fileHandle ''new.txt'', fileHandle ''old.txt'']
          None (Some [''b.txt'' \<mapsto> ''DELETE''])
          (sampleWorld [''c.txt'', ''~tmp'', ''new.txt'', ''old.txt''] [''new.txt.rqcf'']
             [''a.txt'', ''b.txt'', ''c.txt'']))
     = Ok [RQFromRemote ''/a/a.txt'' (fileHandle ''a.txt''),
           RQFromLocalAndRemote ''/a/c.txt'' (fileHandle ''c.txt'') (fileHandle ''c.txt''),
           RQFromLocal ''~tmp'' (fileHandle ''~tmp''),
           RQFromLocal ''/a/new.txt'' (fileHandle ''new.txt'')] \<and>
   survivingRemote [''b.txt'' \<mapsto> ''DELETE'']
     [fileHandle ''a.txt'', fileHandle ''b.txt'', fileHandle ''c.txt'']
     = [fileHandle ''a.txt'', fileHandle ''c.txt''] \<and>
   regularListing sampleEnv
     [fileHandle ''c.txt'', fileHandle ''~tmp'', fileHandle ''new.txt'', fileHandle ''old.txt''] \<and>
   filter (appendedLocal sampleEnv [fileHandle ''a.txt'', fileHandle ''c.txt'']
             (workFs (sampleWorld [''c.txt'', ''~tmp'', ''new.txt'', ''old.txt''] [''new.txt.rqcf'']
                [''a.txt'', ''b.txt'', ''c.txt''])))
     [fileHandle ''c.txt'', fileHandle ''~tmp'', fileHandle ''new.txt'', fileHandle ''old.txt'']
     = [fileHandle ''~tmp'', fileHandle ''new.txt''] \<and>
   [RQFromLocal ''~tmp'' (fileHandle ''~tmp''), RQFromLocal ''/a/new.txt'' (fileHandle ''new.txt'')]
     = map (localOnly sampleEnv) [fileHandle ''~tmp'', fileHandle ''new.txt'']"
proof -
  let ?R = "[fileHandle ''a.txt'', fileHandle ''b.txt'', fileHandle ''c.txt'']"
  let ?L = "[fileHandle ''c.txt'', fileHandle ''~tmp'', fileHandle ''new.txt'', fileHandle ''old.txt'']"
  let ?Q = "[''b.txt'' \<mapsto> ''DELETE'']"
  let ?w = "sampleWorld [''c.txt'', ''~tmp'', ''new.txt'', ''old.txt''] [''new.txt.rqcf'']
             [''a.txt'', ''b.txt'', ''c.txt'']"
  let ?F = "[RQFromRemote ''/a/a.txt'' (fileHandle ''a.txt''),
           RQFromLocalAndRemote ''/a/c.txt'' (fileHandle ''c.txt'') (fileHandle ''c.txt''),
           RQFromLocal ''~tmp'' (fileHandle ''~tmp''),
           RQFromLocal ''/a/new.txt'' (fileHandle ''new.txt'')]"
  have h: "fst (list_merge sampleEnv ?R ?L None (Some ?Q) ?w) = Ok ?F"
    by (simp add: eval_defs fileHandle_def; blast)
  have s: "survivingRemote ?Q ?R = [fileHandle ''a.txt'', fileHandle ''c.txt'']"
    by (simp add: survivingRemote_def fileHandle_def)
  have g: "regularListing sampleEnv ?L"
    by (simp add: regularListing_def samePlace_def sampleEnv_def fileHandle_def
        objectPrototypeKeys_def getCreateFileName_def path_defs)
  have a: "filter (appendedLocal sampleEnv [fileHandle ''a.txt'', fileHandle ''c.txt''] (workFs ?w)) ?L
             = [fileHandle ''~tmp'', fileHandle ''new.txt'']"
    by (simp add: appendedLocal_def sample_defs fs_defs path_defs getCreateFileName_def)
  from list_merge_order[OF h] obtain kept where
    k: "?F = take (length (survivingRemote ?Q ?R)) ?F @ map (localOnly sampleEnv) kept"
       "regularListing sampleEnv ?L \<longrightarrow>
          kept = filter (appendedLocal sampleEnv (survivingRemote ?Q ?R) (workFs ?w)) ?L"
    by (elim exE conjE) (rule that; assumption)
  from k(2) g s a have kk: "kept = [fileHandle ''~tmp'', fileHandle ''new.txt'']" by simp
  from k(1) s kk have e: "[RQFromLocal ''~tmp'' (fileHandle ''~tmp''),
       RQFromLocal ''/a/new.txt'' (fileHandle ''new.txt'')]
     = map (localOnly sampleEnv) [fileHandle ''~tmp'', fileHandle ''new.txt'']"
    by simp
  from h s g a e show ?thesis by (intro conjI)
qed

subsection \<open>C7: after \<^verbatim>\<open>createFile\<close>\<close>



subsection \<open>C8: renaming directories and files\<close>

text \<open>
  Claim C8 says that every rename of a file that the local tree contains enqueues a \<^verbatim>\<open>MOVE\<close>.
  It fails when both names are temporary: \<^verbatim>\<open>queueData\<close> then skips the request. Renaming the
  file \<^verbatim>\<open>/a/~a.tmp\<close> to \<^verbatim>\<open>/a/~b.tmp\<close> succeeds, and the queue is never called.
\<close>

theorem rename_temp_file_not_queued:
  "fs_stat (localFs (sampleWorld [''~a.tmp''] [] [])) ''/a/~a.tmp'' = Some False \<and>
   fst (RQTree_rename sampleEnv ''/a/~a.tmp'' ''/a/~b.tmp'' (sampleWorld [''~a.tmp''] [] [])) = Ok () \<and>
   queue (snd (RQTree_rename sampleEnv ''/a/~a.tmp'' ''/a/~b.tmp'' (sampleWorld [''~a.tmp''] [] []))) = [] \<and>
   trace (snd (RQTree_rename sampleEnv ''/a/~a.tmp'' ''/a/~b.tmp'' (sampleWorld [''~a.tmp''] [] []))) =
     [FsStat Local ''/a/~a.tmp'', FsRename Local ''/a/~a.tmp'' ''/a/~b.tmp'',
      InvalidateContentCache (Some ''/a''), InvalidateContentCache (Some ''/a''),
      FSFileCreateInstance Local ''/a/~b.tmp'', FsStat Work ''/a/~a.tmp'',
      FsStat Work ''/a/~a.tmp.rqcf'']"
  by (simp add: eval_defs; blast)

text \<open>
  Claim C8 as amended: when a rename of a name that the local tree contains succeeds, the calls
  it makes are a sequence \<open>pre\<close> without any remote call or request to the queue, followed by
  \<open>tail\<close>. If the renamed entry is a directory, \<open>tail\<close> is the rename on the remote tree
  followed by \<^verbatim>\<open>updatePath\<close>, which re-parents the queue, and no \<^verbatim>\<open>MOVE\<close> is enqueued. If
  it is a file, no remote call is made; nothing is enqueued when both names are temporary, and
  otherwise the queue is asked to enqueue the \<^verbatim>\<open>MOVE\<close> from the old to the new name, which
  it appends unless it fails.
\<close>

theorem rename_eager_or_queued:
  assumes "fst (RQTree_rename env oldName newName w) = Ok u"
      and "fs_stat (localFs w) oldName \<noteq> None"
  shows "\<exists>pre tail.
     trace (snd (RQTree_rename env oldName newName w)) = trace w @ pre @ tail \<and>
     (\<forall>c\<in>set pre. \<not> isRemoteCall c \<and> (\<forall>e. c \<noteq> QueueRequest e)) \<and>
     (if fs_stat (localFs (snd (RQTree_rename env oldName newName w))) newName = Some True
      then tail = [DamRename oldName newName, UpdatePath oldName newName] \<and>
           queue (snd (RQTree_rename env oldName newName w)) =
             map (\<lambda>e. e\<lparr>path := rebase oldName newName (path e)\<rparr>) (queue w)
      else if isTempFileName env oldName \<and> isTempFileName env newName
      then tail = [] \<and> queue (snd (RQTree_rename env oldName newName w)) = queue w
      else (\<exists>cs. tail = QueueRequest (moveEntry env oldName newName) # cs \<and>
                 (\<forall>c\<in>set cs. \<not> isRemoteCall c \<and> (\<forall>e. c \<noteq> QueueRequest e))) \<and>
           (queue (snd (RQTree_rename env oldName newName w)) = queue w @ [moveEntry env oldName newName]
            \<or> faults env (QueueRequest (moveEntry env oldName newName)) \<noteq> None \<and>
              queue (snd (RQTree_rename env oldName newName w)) = queue w))"
proof -
  obtain w' where w': "RQTree_rename env oldName newName w = (Ok u, w')"
    using assms(1) by (cases "RQTree_rename env oldName newName w") simp
  then have s: "snd (RQTree_rename env oldName newName w) = w'" by simp
  show ?thesis unfolding s by (rule RQTree_rename_Ok[OF w' assms(2)])
qed

text \<open>The witness for C8: renaming the file \<^verbatim>\<open>/a/x.txt\<close> to \<^verbatim>\<open>/a/y.txt\<close>.\<close>

theorem rename_eager_or_queued_witness:
  "fst (RQTree_rename sampleEnv ''/a/x.txt'' ''/a/y.txt'' (sampleWorld [''x.txt''] [] [''x.txt''])) = Ok () \<and>
   fs_stat (localFs (sampleWorld [''x.txt''] [] [''x.txt''])) ''/a/x.txt'' \<noteq> None \<and>
   fs_stat (localFs (snd (RQTree_rename sampleEnv ''/a/x.txt'' ''/a/y.txt''
      (sampleWorld [''x.txt''] [] [''x.txt''])))) ''/a/y.txt'' = Some False \<and>
   \<not> isTempFileName sampleEnv ''/a/x.txt'' \<and>
   (\<exists>pre cs. trace (snd (RQTree_rename sampleEnv ''/a/x.txt'' ''/a/y.txt''
                 (sampleWorld [''x.txt''] [] [''x.txt''])))
        = trace (sampleWorld [''x.txt''] [] [''x.txt'']) @ pre @
            QueueRequest (moveEntry sampleEnv ''/a/x.txt'' ''/a/y.txt'') # cs \<and>
      (\<forall>c\<in>set (pre @ cs). \<not> isRemoteCall c))"
proof -
  let ?w = "sampleWorld [''x.txt''] [] [''x.txt'']"
  let ?r = "RQTree_rename sampleEnv ''/a/x.txt'' ''/a/y.txt'' ?w"
  have h1: "fst ?r = Ok ()" by (simp add: eval_defs; blast)
  have h2: "fs_stat (localFs ?w) ''/a/x.txt'' \<noteq> None"
    by (simp add: sample_defs fs_defs path_defs)
  have k: "fs_stat (localFs (snd ?r)) ''/a/y.txt'' = Some False"
    by (simp add: eval_defs; blast)
  have t: "\<not> isTempFileName sampleEnv ''/a/x.txt''"
    by (simp add: sampleEnv_def getPathName_def)
  from rename_eager_or_queued[OF h1 h2] obtain pre tail where
    p: "trace (snd ?r) = trace ?w @ pre @ tail"
       "\<forall>c\<in>set pre. \<not> isRemoteCall c \<and> (\<forall>e. c \<noteq> QueueRequest e)"
       "(if fs_stat (localFs (snd ?r)) ''/a/y.txt'' = Some True
      then tail = [DamRename ''/a/x.txt'' ''/a/y.txt'', UpdatePath ''/a/x.txt'' ''/a/y.txt''] \<and>
           queue (snd ?r) =
             map (\<lambda>e. e\<lparr>path := rebase ''/a/x.txt'' ''/a/y.txt'' (path e)\<rparr>) (queue ?w)
      else if isTempFileName sampleEnv ''/a/x.txt'' \<and> isTempFileName sampleEnv ''/a/y.txt''
      then tail = [] \<and> queue (snd ?r) = queue ?w
      else (\<exists>cs. tail = QueueRequest (moveEntry sampleEnv ''/a/x.txt'' ''/a/y.txt'') # cs \<and>
                 (\<forall>c\<in>set cs. \<not> isRemoteCall c \<and> (\<forall>e. c \<noteq> QueueRequest e))) \<and>
           (queue (snd ?r) = queue ?w @ [moveEntry sampleEnv ''/a/x.txt'' ''/a/y.txt'']
            \<or> faults sampleEnv (QueueRequest (moveEntry sampleEnv ''/a/x.txt'' ''/a/y.txt'')) \<noteq> None \<and>
              queue (snd ?r) = queue ?w))"
    by blast
  from p(3) k t obtain cs where
    c: "tail = QueueRequest (moveEntry sampleEnv ''/a/x.txt'' ''/a/y.txt'') # cs"
       "\<forall>c\<in>set cs. \<not> isRemoteCall c \<and> (\<forall>e. c \<noteq> QueueRequest e)"
    by auto
  from p(1,2) c have
    "\<exists>pre cs. trace (snd ?r) = trace ?w @ pre @
            QueueRequest (moveEntry sampleEnv ''/a/x.txt'' ''/a/y.txt'') # cs \<and>
      (\<forall>c\<in>set (pre @ cs). \<not> isRemoteCall c)"
    by auto
  with h1 h2 k t show ?thesis by blast
qed

subsection \<open>C9: errors of the queue while enqueueing\<close>

text \<open>
  Claim C9: an error of the queue while enqueueing is logged and never reaches the callback of
  the operation. Let two environments agree on every call but the requests to enqueue. Then
  \<^verbatim>\<open>delete\<close> and \<^verbatim>\<open>rename\<close> invoke their callback in the same way under both, so an operation
  that succeeds when the queue works succeeds when it fails. When the queue fails a request,
  \<^verbatim>\<open>queueData\<close> has called the queue with the entry it built, the error is logged, and nothing
  else has changed. The \<^verbatim>\<open>delete\<close> of a file of the local tree whose name is not temporary
  succeeds when the local tree does not fail: it has made its calls in their order, the request
  to enqueue the \<^verbatim>\<open>DELETE\<close> among them, the error is logged, the queue is as it was and the
  file is gone from the local tree. A successful \<^verbatim>\<open>rename\<close> of such a file ends with the
  request to enqueue the \<^verbatim>\<open>MOVE\<close>; the error is logged and the queue is as it was.
\<close>

theorem enqueue_error_not_propagated:
  assumes "\<forall>c. (\<forall>e. c \<noteq> QueueRequest e) \<longrightarrow> faults env' c = faults env c"
  shows "fst (RQTree_delete env' name w) = fst (RQTree_delete env name w) \<and>
         fst (RQTree_rename env' oldName newName w) = fst (RQTree_rename env oldName newName w) \<and>
         (\<forall>e. \<not> queueSkipped env' name dest \<and>
               faults env' (QueueRequest (queueEntry env' meth name dest)) = Some e \<longrightarrow>
            queueData env' name meth dest w =
              w\<lparr>trace := trace w @ [QueueRequest (queueEntry env' meth name dest)],
                lateLog := lateLog w @ [LogError ''unable to queue request'']\<rparr>) \<and>
         (\<forall>e. fs_stat (localFs w) name = Some False \<and> \<not> fs_enotdir (localFs w) name \<and>
               faults env' (FsStat Local name) = None \<and> faults env' (FsUnlink Local name) = None \<and>
               \<not> isTempFileName env' name \<and>
               faults env' (QueueRequest (deleteEntry env' name)) = Some e \<longrightarrow>
            fst (RQTree_delete env' name w) = Ok () \<and>
            (\<exists>cs. trace (snd (RQTree_delete env' name w)) =
                     trace w @ [LogInfo ''[%s] tree.delete %s'' name, FsStat Local name,
                                FsUnlink Local name, InvalidateContentCache (getParentPath name),
                                QueueRequest (deleteEntry env' name), DeleteWorkFiles name] @ cs \<and>
                   (\<forall>c\<in>set cs. \<exists>m. c = LogError m)) \<and>
            lateLog (snd (RQTree_delete env' name w)) =
              lateLog w @ [LogError ''unable to queue request''] \<and>
            queue (snd (RQTree_delete env' name w)) = queue w \<and>
            fs_stat (localFs (snd (RQTree_delete env' name w))) name = None) \<and>
         (\<forall>e u. fst (RQTree_rename env' oldName newName w) = Ok u \<and>
                 fs_stat (localFs w) oldName \<noteq> None \<and>
                 fs_stat (localFs (snd (RQTree_rename env' oldName newName w))) newName = Some False \<and>
                 \<not> (isTempFileName env' oldName \<and> isTempFileName env' newName) \<and>
                 faults env' (QueueRequest (moveEntry env' oldName newName)) = Some e \<longrightarrow>
            (\<exists>pre. trace (snd (RQTree_rename env' oldName newName w)) =
                      trace w @ pre @ [QueueRequest (moveEntry env' oldName newName)] \<and>
                    (\<forall>c\<in>set pre. \<not> isRemoteCall c \<and> (\<forall>e. c \<noteq> QueueRequest e))) \<and>
            lateLog (snd (RQTree_rename env' oldName newName w)) =
              lateLog w @ [LogError ''unable to queue request''] \<and>
            queue (snd (RQTree_rename env' oldName newName w)) = queue w)"
proof -
  have qd: "queueData env' name meth dest w =
              w\<lparr>trace := trace w @ [QueueRequest (queueEntry env' meth name dest)],
                lateLog := lateLog w @ [LogError ''unable to queue request'']\<rparr>"
    if "\<not> queueSkipped env' name dest"
       "faults env' (QueueRequest (queueEntry env' meth name dest)) = Some e" for e
    using that by (simp add: queueData_eq traced_def)
  have del: "fst (RQTree_delete env' name w) = Ok () \<and>
            (\<exists>cs. trace (snd (RQTree_delete env' name w)) =
                     trace w @ [LogInfo ''[%s] tree.delete %s'' name, FsStat Local name,
                                FsUnlink Local name, InvalidateContentCache (getParentPath name),
                                QueueRequest (deleteEntry env' name), DeleteWorkFiles name] @ cs \<and>
                   (\<forall>c\<in>set cs. \<exists>m. c = LogError m)) \<and>
            lateLog (snd (RQTree_delete env' name w)) =
              lateLog w @ [LogError ''unable to queue request''] \<and>
            queue (snd (RQTree_delete env' name w)) = queue w \<and>
            fs_stat (localFs (snd (RQTree_delete env' name w))) name = None"
    if f: "fs_stat (localFs w) name = Some False" "\<not> fs_enotdir (localFs w) name"
          "faults env' (FsStat Local name) = None" "faults env' (FsUnlink Local name) = None"
       and c: "\<not> isTempFileName env' name"
       and d: "faults env' (QueueRequest (deleteEntry env' name)) = Some e" for e
  proof -
    from RQTree_delete_succeeds[OF f] have a: "fst (RQTree_delete env' name w) = Ok ()" .
    from f(1) have b: "fs_stat (localFs w) name \<noteq> None" by simp
    obtain w1 where w1: "RQTree_delete env' name w = (Ok (), w1)"
      using a by (cases "RQTree_delete env' name w") simp
    then have s: "snd (RQTree_delete env' name w) = w1" by simp
    from a RQTree_delete_queue_error[OF w1 b c d] show ?thesis unfolding s by (intro conjI)
  qed
  have ren: "(\<exists>pre. trace (snd (RQTree_rename env' oldName newName w)) =
                      trace w @ pre @ [QueueRequest (moveEntry env' oldName newName)] \<and>
                    (\<forall>c\<in>set pre. \<not> isRemoteCall c \<and> (\<forall>e. c \<noteq> QueueRequest e))) \<and>
            lateLog (snd (RQTree_rename env' oldName newName w)) =
              lateLog w @ [LogError ''unable to queue request''] \<and>
            queue (snd (RQTree_rename env' oldName newName w)) = queue w"
    if a: "fst (RQTree_rename env' oldName newName w) = Ok u"
       and b: "fs_stat (localFs w) oldName \<noteq> None"
       and c: "fs_stat (localFs (snd (RQTree_rename env' oldName newName w))) newName = Some False"
       and d: "\<not> (isTempFileName env' oldName \<and> isTempFileName env' newName)"
       and e: "faults env' (QueueRequest (moveEntry env' oldName newName)) = Some e" for e u
  proof -
    obtain w1 where w1: "RQTree_rename env' oldName newName w = (Ok u, w1)"
      using a by (cases "RQTree_rename env' oldName newName w") simp
    then have s: "snd (RQTree_rename env' oldName newName w) = w1" by simp
    from c have c': "fs_stat (localFs w1) newName = Some False" unfolding s .
    from RQTree_rename_queue_error[OF w1 b c' d e] show ?thesis unfolding s by (intro conjI)
  qed
  from RQTree_delete_queue_faults[OF assms, of name w]
    RQTree_rename_queue_faults[OF assms, of oldName newName w] qd del ren
  show ?thesis by blast
qed

text \<open>The witness for C9: with a queue that fails every request, deleting and renaming
  \<^verbatim>\<open>/a/x.txt\<close> succeed, the queue is asked, the error is logged and the queue stays empty.\<close>

theorem enqueue_error_not_propagated_witness:
  "faults queueDownEnv (QueueRequest (deleteEntry queueDownEnv ''/a/x.txt'')) = Some Queue \<and>
   fst (RQTree_delete queueDownEnv ''/a/x.txt'' (sampleWorld [''x.txt''] [] [''x.txt''])) = Ok () \<and>
   trace (snd (RQTree_delete queueDownEnv ''/a/x.txt'' (sampleWorld [''x.txt''] [] [''x.txt'']))) =
     [LogInfo ''[%s] tree.delete %s'' ''/a/x.txt'', FsStat Local ''/a/x.txt'',
      FsUnlink Local ''/a/x.txt'', InvalidateContentCache (Some ''/a''),
      QueueRequest (deleteEntry queueDownEnv ''/a/x.txt''), DeleteWorkFiles ''/a/x.txt''] \<and>
   lateLog (snd (RQTree_delete queueDownEnv ''/a/x.txt'' (sampleWorld [''x.txt''] [] [''x.txt'']))) =
     [LogError ''unable to queue request''] \<and>
   queue (snd (RQTree_delete queueDownEnv ''/a/x.txt'' (sampleWorld [''x.txt''] [] [''x.txt'']))) = [] \<and>
   fst (RQTree_rename queueDownEnv ''/a/x.txt'' ''/a/y.txt'' (sampleWorld [''x.txt''] [] [''x.txt''])) = Ok () \<and>
   lateLog (snd (RQTree_rename queueDownEnv ''/a/x.txt'' ''/a/y.txt''
      (sampleWorld [''x.txt''] [] [''x.txt'']))) = [LogError ''unable to queue request''] \<and>
   queue (snd (RQTree_rename queueDownEnv ''/a/x.txt'' ''/a/y.txt''
      (sampleWorld [''x.txt''] [] [''x.txt'']))) = []"
proof -
  let ?w = "sampleWorld [''x.txt''] [] [''x.txt'']"
  let ?E = queueDownEnv
  have a: "\<forall>c. (\<forall>e. c \<noteq> QueueRequest e) \<longrightarrow> faults ?E c = faults sampleEnv c"
    by (auto simp: queueDownEnv_def sampleEnv_def split: call.splits)
  have d: "faults ?E (QueueRequest e) = Some Queue" for e
    by (simp add: queueDownEnv_def)
  have e2: "fst (RQTree_rename sampleEnv ''/a/x.txt'' ''/a/y.txt'' ?w) = Ok ()"
    by (simp add: eval_defs; blast)
  have w0: "queue ?w = []" "lateLog ?w = []" "trace ?w = []"
    "fs_stat (localFs ?w) ''/a/x.txt'' \<noteq> None"
    by (simp_all add: sample_defs fs_defs path_defs)
  have w1: "fs_stat (localFs ?w) ''/a/x.txt'' = Some False"
    "\<not> fs_enotdir (localFs ?w) ''/a/x.txt''"
    "faults ?E (FsStat Local ''/a/x.txt'') = None" "faults ?E (FsUnlink Local ''/a/x.txt'') = None"
    by (simp_all add: sample_defs fs_defs path_defs)
  have t: "\<not> isTempFileName ?E ''/a/x.txt''"
    by (simp add: queueDownEnv_def sampleEnv_def getPathName_def)
  have k: "fs_stat (localFs (snd (RQTree_rename ?E ''/a/x.txt'' ''/a/y.txt'' ?w))) ''/a/y.txt'' = Some False"
    by (simp add: eval_defs; blast)
  have p: "getParentPath ''/a/x.txt'' = Some ''/a''"
    by (simp add: getParentPath_def)
  note inst = enqueue_error_not_propagated[OF a, where name="''/a/x.txt''" and w="?w"
      and oldName="''/a/x.txt''" and newName="''/a/y.txt''" and dest=None and meth="''DELETE''"]
  note c2 = inst[THEN conjunct2, THEN conjunct1]
  note c4 = inst[THEN conjunct2, THEN conjunct2, THEN conjunct2, THEN conjunct1, rule_format]
  note c5 = inst[THEN conjunct2, THEN conjunct2, THEN conjunct2, THEN conjunct2, rule_format]
  from c2 e2 have f2: "fst (RQTree_rename ?E ''/a/x.txt'' ''/a/y.txt'' ?w) = Ok ()" by simp
  have p4: "fs_stat (localFs ?w) ''/a/x.txt'' = Some False \<and>
            \<not> fs_enotdir (localFs ?w) ''/a/x.txt'' \<and>
            faults ?E (FsStat Local ''/a/x.txt'') = None \<and>
            faults ?E (FsUnlink Local ''/a/x.txt'') = None \<and>
            \<not> isTempFileName ?E ''/a/x.txt'' \<and>
            faults ?E (QueueRequest (deleteEntry ?E ''/a/x.txt'')) = Some Queue"
    using w1 t d by (intro conjI)
  note r4 = c4[OF p4]
  from r4 have f1: "fst (RQTree_delete ?E ''/a/x.txt'' ?w) = Ok ()" by simp
  from r4 obtain cs where
    g1: "trace (snd (RQTree_delete ?E ''/a/x.txt'' ?w)) =
           trace ?w @ [LogInfo ''[%s] tree.delete %s'' ''/a/x.txt'', FsStat Local ''/a/x.txt'',
            FsUnlink Local ''/a/x.txt'', InvalidateContentCache (getParentPath ''/a/x.txt''),
            QueueRequest (deleteEntry ?E ''/a/x.txt''), DeleteWorkFiles ''/a/x.txt''] @ cs"
    by (elim conjE exE)
  have g1': "length (trace (snd (RQTree_delete ?E ''/a/x.txt'' ?w))) = 6"
    by (simp add: eval_defs; blast)
  with g1 w0(3) have "cs = []" by simp
  with g1 p w0(3) have g1t: "trace (snd (RQTree_delete ?E ''/a/x.txt'' ?w)) =
           [LogInfo ''[%s] tree.delete %s'' ''/a/x.txt'', FsStat Local ''/a/x.txt'',
            FsUnlink Local ''/a/x.txt'', InvalidateContentCache (Some ''/a''),
            QueueRequest (deleteEntry ?E ''/a/x.txt''), DeleteWorkFiles ''/a/x.txt'']"
    by simp
  from r4 w0 have g1l: "lateLog (snd (RQTree_delete ?E ''/a/x.txt'' ?w)) = [LogError ''unable to queue request'']"
    and g1q: "queue (snd (RQTree_delete ?E ''/a/x.txt'' ?w)) = []"
    by simp_all
  have p5: "fst (RQTree_rename ?E ''/a/x.txt'' ''/a/y.txt'' ?w) = Ok () \<and>
            fs_stat (localFs ?w) ''/a/x.txt'' \<noteq> None \<and>
            fs_stat (localFs (snd (RQTree_rename ?E ''/a/x.txt'' ''/a/y.txt'' ?w))) ''/a/y.txt'' = Some False \<and>
            \<not> (isTempFileName ?E ''/a/x.txt'' \<and> isTempFileName ?E ''/a/y.txt'') \<and>
            faults ?E (QueueRequest (moveEntry ?E ''/a/x.txt'' ''/a/y.txt'')) = Some Queue"
    using f2 w0(4) k t d by (intro conjI) simp_all
  note r5 = c5[OF p5]
  from r5 w0 have
    g2: "lateLog (snd (RQTree_rename ?E ''/a/x.txt'' ''/a/y.txt'' ?w)) = [LogError ''unable to queue request'']"
      "queue (snd (RQTree_rename ?E ''/a/x.txt'' ''/a/y.txt'' ?w)) = []"
    by simp_all
  from d f1 f2 g1t g1l g1q g2 show ?thesis by (intro conjI)
qed

subsection \<open>C10: an error of \<^verbatim>\<open>getRequests\<close> in \<^verbatim>\<open>list\<close>\<close>

text \<open>
  Claim C10 says that whenever \<^verbatim>\<open>getRequests\<close> reports an error, \<^verbatim>\<open>list\<close> returns neither
  an error nor a result. It fails when the remote listing is empty: the first loop then never
  indexes the mapping, and \<^verbatim>\<open>list\<close> returns the local files.
\<close>

theorem list_getRequests_error_empty_remote:
  "faults getRequestsDownEnv (GetRequests ''/a'') = Some Queue \<and>
   fst (RQTree_list getRequestsDownEnv ''/a/*'' (sampleWorld [''x.txt''] [''x.txt.rqcf''] [])) =
     Ok [RQFromLocal ''/a/x.txt''
           \<lparr>getName = ''x.txt'', getPath = ''/a/x.txt'', isDirectory = False\<rparr>]"
  by (simp add: eval_defs; blast)

text \<open>
  Claim C10 as amended: \<^verbatim>\<open>list\<close> never reads the error of \<^verbatim>\<open>getRequests\<close>. When
  \<^verbatim>\<open>getRequests\<close> reports an error, and so hands over no mapping, and the remote listing has
  an entry, \<^verbatim>\<open>list\<close> throws while indexing the mapping: its callback gets neither an error
  nor a result. When the remote listing is empty, \<^verbatim>\<open>list\<close> returns what the merge returns
  for any mapping the queue could have handed over.
\<close>

theorem list_getRequests_error:
  assumes "DAMTree_list env pattern w = (Ok remoteFiles, w1)"
      and "FSTree_exists env Local (dirOf pattern) w1 = (Ok True, w2)"
      and "FSTree_list env Local pattern w2 = (Ok localFiles, w3)"
      and "faults env (GetRequests (dirOf pattern)) = Some e"
  shows "(remoteFiles \<noteq> [] \<longrightarrow> fst (RQTree_list env pattern w) = Throws) \<and>
         (remoteFiles = [] \<longrightarrow>
            (\<forall>req. RQTree_list env pattern w =
                     list_merge env [] localFiles None (Some req)
                       (traced (GetRequests (dirOf pattern)) w3)))"
  using assms
  by (simp add: RQTree_list_def andThen_def dirOf_def RequestQueue_getRequests_def
      list_merge_None list_merge_empty_remote Let_def)

text \<open>The witness for C10: the remote tree lists \<^verbatim>\<open>x.txt\<close> and the queue fails to report
  its requests.\<close>

theorem list_getRequests_error_witness:
  "faults getRequestsDownEnv (GetRequests (dirOf ''/a/*'')) = Some Queue \<and>
   fst (DAMTree_list getRequestsDownEnv ''/a/*'' (sampleWorld [''x.txt''] [] [''x.txt''])) =
     Ok [fileHandle ''x.txt''] \<and>
   fst (RQTree_list getRequestsDownEnv ''/a/*'' (sampleWorld [''x.txt''] [] [''x.txt''])) = Throws"
proof -
  let ?w = "sampleWorld [''x.txt''] [] [''x.txt'']"
  let ?E = getRequestsDownEnv
  let ?w1 = "snd (DAMTree_list ?E ''/a/*'' ?w)"
  let ?w2 = "snd (FSTree_exists ?E Local (dirOf ''/a/*'') ?w1)"
  let ?w3 = "snd (FSTree_list ?E Local ''/a/*'' ?w2)"
  have f: "faults ?E (GetRequests (dirOf ''/a/*'')) = Some Queue"
    by (simp add: getRequestsDownEnv_def)
  have h1f: "fst (DAMTree_list ?E ''/a/*'' ?w) = Ok [fileHandle ''x.txt'']"
    by (simp add: eval_defs fileHandle_def; blast)
  then have h1: "DAMTree_list ?E ''/a/*'' ?w = (Ok [fileHandle ''x.txt''], ?w1)"
    by (simp add: prod_eq_iff)
  have h2: "FSTree_exists ?E Local (dirOf ''/a/*'') ?w1 = (Ok True, ?w2)"
    by (simp add: eval_defs prod_eq_iff; blast)
  have h3: "FSTree_list ?E Local ''/a/*'' ?w2 = (Ok [fileHandle ''x.txt''], ?w3)"
    by (simp add: eval_defs fileHandle_def prod_eq_iff; blast)
  from list_getRequests_error[OF h1 h2 h3 f] f h1f show ?thesis by simp
qed

end
